theory Spec2Isabelle
  imports Main
begin

section \<open>JSON values and \<open>JSON.stringify\<close>\<close>

text \<open>
  The driver of \<^verbatim>\<open>packages/cli/src/nonInteractiveCli.ts\<close> builds JavaScript object
  literals and writes \<^verbatim>\<open>JSON.stringify(obj) + '\n'\<close> to standard output. JavaScript
  values that reach \<^verbatim>\<open>JSON.stringify\<close> are modelled by the datatype \<open>json\<close>. Strings are
  byte strings (the UTF-8 text that reaches the output stream). \<open>JNum\<close> stands for an
  integer-valued number that JavaScript prints in plain decimal; fractions and exponents
  are outside the model (no claim depends on a number). An object is the list of its
  properties in insertion order, which is the order \<^verbatim>\<open>JSON.stringify\<close> prints them in.
\<close>

datatype json =
    JNull
  | JBool bool
  | JNum int
  | JStr string
  | JArr "json list"
  | JObj "(string \<times> json) list"

type_synonym jsobject = "(string \<times> json) list"

definition digit_char :: "nat \<Rightarrow> char" where
  "digit_char n = char_of (48 + n)"

fun dec :: "nat \<Rightarrow> string" where
  "dec n = (if n < 10 then [digit_char n] else dec (n div 10) @ [digit_char (n mod 10)])"

declare dec.simps [simp del]

definition hex_char :: "nat \<Rightarrow> char" where
  "hex_char n = (if n < 10 then char_of (48 + n) else char_of (87 + n))"

text \<open>
  \<^verbatim>\<open>QuoteJSONString\<close> of ECMAScript: the quote and the backslash are escaped, the control
  characters below U+0020 are written \<^verbatim>\<open>\b \f \n \r \t\<close> or \<^verbatim>\<open>\u00xx\<close> (lower-case hex),
  every other character stands for itself.
\<close>

definition escape_char :: "char \<Rightarrow> string" where
  "escape_char c =
     (if c = CHR 0x22 then [CHR 0x5C, CHR 0x22]
      else if c = CHR 0x5C then [CHR 0x5C, CHR 0x5C]
      else if c = CHR 0x08 then [CHR 0x5C, CHR ''b'']
      else if c = CHR 0x0C then [CHR 0x5C, CHR ''f'']
      else if c = CHR 0x0A then [CHR 0x5C, CHR ''n'']
      else if c = CHR 0x0D then [CHR 0x5C, CHR ''r'']
      else if c = CHR 0x09 then [CHR 0x5C, CHR ''t'']
      else if (of_char c :: nat) < 32
        then [CHR 0x5C, CHR ''u'', CHR ''0'', CHR ''0'',
              hex_char ((of_char c :: nat) div 16), hex_char ((of_char c :: nat) mod 16)]
      else [c])"

definition quote :: "string \<Rightarrow> string" where
  "quote s = CHR 0x22 # concat (map escape_char s) @ [CHR 0x22]"

fun join :: "string \<Rightarrow> string list \<Rightarrow> string" where
  "join sep [] = []"
| "join sep [x] = x"
| "join sep (x # y # ys) = x @ sep @ join sep (y # ys)"

fun JSON_stringify :: "json \<Rightarrow> string" where
  "JSON_stringify JNull = ''null''"
| "JSON_stringify (JBool b) = (if b then ''true'' else ''false'')"
| "JSON_stringify (JNum i) = (if i < 0 then CHR ''-'' # dec (nat (- i)) else dec (nat i))"
| "JSON_stringify (JStr s) = quote s"
| "JSON_stringify (JArr xs) = ''['' @ join '','' (map JSON_stringify xs) @ '']''"
| "JSON_stringify (JObj kvs) =
     ''{'' @ join '','' (map (\<lambda>(k, v). quote k @ '':'' @ JSON_stringify v) kvs) @ ''}''"

text \<open>
  An object literal whose property values may be \<^verbatim>\<open>undefined\<close>: \<^verbatim>\<open>JSON.stringify\<close> leaves
  such a property out.
\<close>

definition js_object :: "(string \<times> json option) list \<Rightarrow> json" where
  "js_object kvs = JObj (List.map_filter (\<lambda>(k, v). map_option (Pair k) v) kvs)"

definition jsonl_line :: "json \<Rightarrow> string" where
  "jsonl_line j = JSON_stringify j @ [CHR 0x0A]"


section \<open>Data model\<close>

text \<open>
  A \<^verbatim>\<open>Part\<close> of \<^verbatim>\<open>@google/genai\<close> is an object; \<^verbatim>\<open>{ text: s }\<close> is the text part.
  A \<^verbatim>\<open>Content\<close> has a role and optional parts.
\<close>

type_synonym part = jsobject

definition text_part :: "string \<Rightarrow> part" where
  "text_part s = [(''text'', JStr s)]"

record content =
  role :: string
  parts :: "part list option"

text \<open>
  \<^verbatim>\<open>PartListUnion\<close>: one \<^verbatim>\<open>PartUnion\<close> or an array of them; a \<^verbatim>\<open>PartUnion\<close> is a
  string or a \<^verbatim>\<open>Part\<close>. \<open>PFalsy\<close> stands for the falsy non-string values
  (\<^verbatim>\<open>undefined\<close>, \<^verbatim>\<open>null\<close>) that the driver guards against; as a single value it also
  stands for an absent \<^verbatim>\<open>responseParts\<close>.
\<close>

datatype part_union = PString string | PObject part | PFalsy

datatype part_list_union = Single part_union | Many "part_union list"

text \<open>
  Modelled from the spec: the response of the tool executor, whose type is declared in the
  core library, outside the sources at hand. It has an optional error with a message
  (\<open>error\<close> holds \<^verbatim>\<open>error.message\<close>), an optional display-result string, and optional
  response parts.
\<close>

record tool_response =
  resultDisplay :: "string option"
  error :: "string option"
  responseParts :: part_list_union

text \<open>
  Modelled from the spec: the value of a tool-call-request event (declared in the core
  library), with a tool name, an argument mapping and an identifier that may be absent.
  The driver copies it into a \<^verbatim>\<open>FunctionCall\<close>, whose identifier and arguments are
  optional (\<^verbatim>\<open>fc.id ?? ...\<close>, \<^verbatim>\<open>fc.args ?? {}\<close>), and builds from that the request
  information it gives to the executor.
\<close>

datatype tool_call_request =
  ToolCallRequestValue (req_name: string) (req_args: "jsobject option") (req_callId: "string option")

datatype function_call =
  FunctionCall (fc_name: string) (fc_args: "jsobject option") (fc_id: "string option")

record tool_call_request_info =
  callId :: string
  name :: string
  args :: jsobject
  isClientInitiated :: bool
  prompt_id :: string

text \<open>
  Modelled from the spec: the events of the stream (declared in the core library) are
  content events and tool-call requests; \<open>OtherEvent\<close> stands for any other event type,
  which the driver ignores. Each event comes with the value of
  \<^verbatim>\<open>abortController.signal.aborted\<close> at the moment the driver receives it. A stream is
  the finite list of its events and, when the exchange fails, the diagnostic that
  \<^verbatim>\<open>parseAndFormatApiError\<close> gives for the error thrown after them.
\<close>

datatype event = Content string | ToolCallRequest tool_call_request | OtherEvent

record stream =
  items :: "(bool \<times> event) list"
  failure :: "string option"

text \<open>
  What the driver does to the outside world, in order. A call of the agent client or of
  the tool executor is logged together with what it returned.
\<close>

datatype effect =
    StdoutWrite string
  | ConsoleError string
  | SendMessageStream "part list" string stream
  | ExecuteToolCall tool_call_request_info "string + tool_response"
  | ProcessExit int

text \<open>
  Modelled from the spec: the collaborators, which the driver only calls. They are the
  configured turn limit, the agent client and the tool executor (an answer may depend on
  the arguments and on how many calls came before; the executor may throw, which is
  \<open>Inl\<close> with the diagnostic), the clock (the value of its \<open>k\<close>-th reading, in
  milliseconds) and the formatting of \<^verbatim>\<open>toISOString\<close>.
\<close>

record env =
  getMaxSessionTurns :: int
  sendMessageStream :: "nat \<Rightarrow> part list \<Rightarrow> string \<Rightarrow> stream"
  executeToolCall :: "nat \<Rightarrow> tool_call_request_info \<Rightarrow> string + tool_response"
  clock :: "nat \<Rightarrow> nat"
  toISOString :: "nat \<Rightarrow> string"

text \<open>
  The session: the message batch and the turn counter of the driver, the log of effects,
  and the numbers of clock readings, client calls and executor calls so far.
\<close>

record session =
  currentMessages :: "content list"
  turnCount :: nat
  trace :: "effect list"
  ticks :: nat
  sends :: nat
  execs :: nat

datatype outcome = Completed | LimitReached | Cancelled | Failed


section \<open>The driver\<close>

text \<open>
  \<^verbatim>\<open>runNonInteractive\<close> as a function of the collaborators. Every function takes the
  session and returns it updated. The patching of the console, the shutdown of telemetry in
  the \<^verbatim>\<open>finally\<close> block and the handler for a closed output pipe are left out: they do
  not touch the session.
\<close>

definition emit :: "effect \<Rightarrow> session \<Rightarrow> session" where
  "emit x s = s\<lparr>trace := trace s @ [x]\<rparr>"

definition dateNow :: "env \<Rightarrow> session \<Rightarrow> nat \<times> session" where
  "dateNow e s = (clock e (ticks s), s\<lparr>ticks := Suc (ticks s)\<rparr>)"

definition isoNow :: "env \<Rightarrow> session \<Rightarrow> string \<times> session" where
  "isoNow e s = (toISOString e (clock e (ticks s)), s\<lparr>ticks := Suc (ticks s)\<rparr>)"

text \<open>
  The object literals \<^verbatim>\<open>jsonlEvent\<close> of lines 75--79 (token) and 88--96 (tool call). The
  time stamp is read from the clock when the literal is built.
\<close>

definition token_event :: "string \<Rightarrow> string \<Rightarrow> json" where
  "token_event v ts =
     JObj [(''type'', JStr ''token''), (''data'', JStr v), (''timestamp'', JStr ts)]"

definition tool_call_event :: "tool_call_request \<Rightarrow> string \<Rightarrow> json" where
  "tool_call_event r ts =
     JObj [(''type'', JStr ''tool_call''),
           (''data'', js_object [(''name'', Some (JStr (req_name r))),
                                 (''args'', map_option JObj (req_args r)),
                                 (''call_id'', map_option JStr (req_callId r))]),
           (''timestamp'', JStr ts)]"

text \<open>\<^verbatim>\<open>a || b\<close> on an optional string: the empty string is falsy.\<close>

definition or_else :: "string option \<Rightarrow> string \<Rightarrow> string" where
  "or_else a b = (case a of None \<Rightarrow> b | Some x \<Rightarrow> if x = [] then b else x)"

text \<open>
  The object literal of lines 129--138 (tool result), with
  \<^verbatim>\<open>toolResponse.resultDisplay || (toolResponse.error ? toolResponse.error.message : 'Success')\<close>
  as \<open>result_field\<close> and \<^verbatim>\<open>toolResponse.error ? toolResponse.error.message : null\<close> as
  \<open>error_field\<close>.
\<close>

definition result_field :: "tool_response \<Rightarrow> string" where
  "result_field r =
     or_else (resultDisplay r) (case error r of Some m \<Rightarrow> m | None \<Rightarrow> ''Success'')"

definition error_field :: "tool_response \<Rightarrow> json" where
  "error_field r = (case error r of Some m \<Rightarrow> JStr m | None \<Rightarrow> JNull)"

definition tool_result_event :: "string \<Rightarrow> string \<Rightarrow> tool_response \<Rightarrow> string \<Rightarrow> json" where
  "tool_result_event cid nm r ts =
     JObj [(''type'', JStr ''tool_result''),
           (''data'', JObj [(''call_id'', JStr cid),
                            (''name'', JStr nm),
                            (''result'', JStr (result_field r)),
                            (''error'', error_field r)]),
           (''timestamp'', JStr ts)]"

text \<open>The messages given to \<^verbatim>\<open>console.error\<close> on lines 54--56, 69 and 143--145.\<close>

definition limit_notice :: string where
  "limit_notice = CHR 0x0A # '' Reached max session turns for this session. Increase the number of turns by specifying maxSessionTurns in settings.json.''"

definition cancel_notice :: string where
  "cancel_notice = ''Operation cancelled.''"

definition tool_error_notice :: "string \<Rightarrow> tool_response \<Rightarrow> string \<Rightarrow> string" where
  "tool_error_notice nm r m = ''Error executing tool '' @ nm @ '': '' @ or_else (resultDisplay r) m"

text \<open>The \<^verbatim>\<open>FunctionCall\<close> made of a request on lines 100--104.\<close>

definition to_call :: "tool_call_request \<Rightarrow> function_call" where
  "to_call r = FunctionCall (req_name r) (req_args r) (req_callId r)"

text \<open>
  The body of \<^verbatim>\<open>for await (const event of responseStream)\<close>. The result is the list of
  function calls when the stream is drained, and \<open>None\<close> when the driver returned
  because it saw the cancellation flag set.
\<close>

fun drain :: "env \<Rightarrow> bool \<Rightarrow> (bool \<times> event) list \<Rightarrow> function_call list \<Rightarrow> session
    \<Rightarrow> function_call list option \<times> session" where
  "drain e jsonlOutput [] functionCalls s = (Some functionCalls, s)"
| "drain e jsonlOutput ((aborted, ev) # rest) functionCalls s =
     (if aborted then (None, emit (ConsoleError cancel_notice) s)
      else case ev of
        Content v \<Rightarrow>
          if jsonlOutput
          then (case isoNow e s of (ts, s1) \<Rightarrow>
                  drain e jsonlOutput rest functionCalls
                    (emit (StdoutWrite (jsonl_line (token_event v ts))) s1))
          else drain e jsonlOutput rest functionCalls (emit (StdoutWrite v) s)
      | ToolCallRequest r \<Rightarrow>
          (let s2 = (if jsonlOutput
                     then (case isoNow e s of (ts, s1) \<Rightarrow>
                             emit (StdoutWrite (jsonl_line (tool_call_event r ts))) s1)
                     else s)
           in drain e jsonlOutput rest
                (functionCalls @ [to_call r]) s2)
      | OtherEvent \<Rightarrow> drain e jsonlOutput rest functionCalls s)"

text \<open>
  The parts one tool response adds to \<^verbatim>\<open>toolResponseParts\<close>: nothing when
  \<^verbatim>\<open>responseParts\<close> is falsy (absent, or the empty string); otherwise every string entry
  becomes a text part, every other truthy entry is kept, the rest is skipped.
\<close>

fun truthy :: "part_list_union \<Rightarrow> bool" where
  "truthy (Single (PString x)) = (x \<noteq> [])"
| "truthy (Single (PObject p)) = True"
| "truthy (Single PFalsy) = False"
| "truthy (Many ps) = True"

fun as_array :: "part_list_union \<Rightarrow> part_union list" where
  "as_array (Many ps) = ps"
| "as_array (Single p) = [p]"

fun push_part :: "part_union \<Rightarrow> part list" where
  "push_part (PString x) = [text_part x]"
| "push_part (PObject p) = [p]"
| "push_part PFalsy = []"

definition pushed_parts :: "part_list_union \<Rightarrow> part list" where
  "pushed_parts r = (if truthy r then concat (map push_part (as_array r)) else [])"

text \<open>
  \<^verbatim>\<open>fc.id ?? `${fc.name}-${Date.now()}`\<close>: the clock is read only when the identifier is
  absent.
\<close>

definition resolve_callId :: "env \<Rightarrow> function_call \<Rightarrow> session \<Rightarrow> string \<times> session" where
  "resolve_callId e fc s =
     (case fc_id fc of
        Some i \<Rightarrow> (i, s)
      | None \<Rightarrow> (case dateNow e s of (t, s1) \<Rightarrow> (fc_name fc @ ''-'' @ dec t, s1)))"

definition requestInfo :: "string \<Rightarrow> function_call \<Rightarrow> string \<Rightarrow> tool_call_request_info" where
  "requestInfo cid fc pid =
     \<lparr>callId = cid, name = fc_name fc,
      args = (case fc_args fc of Some a \<Rightarrow> a | None \<Rightarrow> []),
      isClientInitiated = False, prompt_id = pid\<rparr>"

text \<open>
  The body of \<^verbatim>\<open>for (const fc of functionCalls)\<close>, for one call: \<open>Inl\<close> when the
  executor throws, otherwise the parts collected so far (\<open>acc\<close> is the array
  \<^verbatim>\<open>toolResponseParts\<close> of the source).
\<close>

definition exec_tool :: "env \<Rightarrow> bool \<Rightarrow> string \<Rightarrow> function_call \<Rightarrow> part list \<Rightarrow> session
    \<Rightarrow> (string + part list) \<times> session" where
  "exec_tool e jsonlOutput pid fc acc s =
     (case resolve_callId e fc s of (cid, s1) \<Rightarrow>
        (let req = requestInfo cid fc pid;
             answer = executeToolCall e (execs s1) req;
             s2 = emit (ExecuteToolCall req answer) (s1\<lparr>execs := Suc (execs s1)\<rparr>)
         in case answer of
              Inl err \<Rightarrow> (Inl err, s2)
            | Inr toolResponse \<Rightarrow>
                (let s3 = (if jsonlOutput
                           then (case isoNow e s2 of (ts, s') \<Rightarrow>
                                   emit (StdoutWrite (jsonl_line
                                     (tool_result_event cid (fc_name fc) toolResponse ts))) s')
                           else s2);
                     s4 = (case error toolResponse of
                             Some m \<Rightarrow> emit (ConsoleError
                                        (tool_error_notice (fc_name fc) toolResponse m)) s3
                           | None \<Rightarrow> s3)
                 in (Inr (acc @ pushed_parts (responseParts toolResponse)), s4))))"

fun exec_tools :: "env \<Rightarrow> bool \<Rightarrow> string \<Rightarrow> function_call list \<Rightarrow> part list \<Rightarrow> session
    \<Rightarrow> (string + part list) \<times> session" where
  "exec_tools e jsonlOutput pid [] acc s = (Inr acc, s)"
| "exec_tools e jsonlOutput pid (fc # fcs) acc s =
     (case exec_tool e jsonlOutput pid fc acc s of
        (Inl err, s1) \<Rightarrow> (Inl err, s1)
      | (Inr acc1, s1) \<Rightarrow> exec_tools e jsonlOutput pid fcs acc1 s1)"

text \<open>\<^verbatim>\<open>currentMessages[0]?.parts || []\<close>\<close>

definition first_parts :: "content list \<Rightarrow> part list" where
  "first_parts ms =
     (case ms of [] \<Rightarrow> [] | m # _ \<Rightarrow> (case parts m of None \<Rightarrow> [] | Some ps \<Rightarrow> ps))"

text \<open>
  The \<^verbatim>\<open>catch\<close> block: the diagnostic is printed and the process exits with status 1.
\<close>

definition fail :: "string \<Rightarrow> session \<Rightarrow> outcome option \<times> session" where
  "fail err s = (Some Failed, emit (ProcessExit 1) (emit (ConsoleError err) s))"

text \<open>
  One iteration of \<^verbatim>\<open>while (true)\<close>: the outcome when the driver returns or exits in it,
  \<open>None\<close> when the loop goes on.
\<close>

definition turn :: "env \<Rightarrow> bool \<Rightarrow> string \<Rightarrow> session \<Rightarrow> outcome option \<times> session" where
  "turn e jsonlOutput pid s0 =
     (let s = s0\<lparr>turnCount := turnCount s0 + 1\<rparr> in
      if getMaxSessionTurns e \<ge> 0 \<and> int (turnCount s) > getMaxSessionTurns e
      then (Some LimitReached, emit (ConsoleError limit_notice) s)
      else
        (let ps = first_parts (currentMessages s);
             responseStream = sendMessageStream e (sends s) ps pid;
             s1 = emit (SendMessageStream ps pid responseStream) (s\<lparr>sends := Suc (sends s)\<rparr>)
         in case drain e jsonlOutput (items responseStream) [] s1 of
              (None, s2) \<Rightarrow> (Some Cancelled, s2)
            | (Some functionCalls, s2) \<Rightarrow>
                (case failure responseStream of
                   Some err \<Rightarrow> fail err s2
                 | None \<Rightarrow>
                     if length functionCalls > 0
                     then (case exec_tools e jsonlOutput pid functionCalls [] s2 of
                             (Inl err, s3) \<Rightarrow> fail err s3
                           | (Inr toolParts, s3) \<Rightarrow>
                               (None, s3\<lparr>currentMessages :=
                                          [\<lparr>role = ''user'', parts = Some toolParts\<rparr>]\<rparr>))
                     else (Some Completed, emit (StdoutWrite [CHR 0x0A]) s2))))"

text \<open>
  The loop, for at most \<open>n\<close> iterations: \<open>None\<close> as outcome says that the driver is still
  running after them.
\<close>

fun run_loop :: "nat \<Rightarrow> env \<Rightarrow> bool \<Rightarrow> string \<Rightarrow> session \<Rightarrow> outcome option \<times> session" where
  "run_loop 0 e jsonlOutput pid s = (None, s)"
| "run_loop (Suc n) e jsonlOutput pid s =
     (case turn e jsonlOutput pid s of
        (Some out, s1) \<Rightarrow> (Some out, s1)
      | (None, s1) \<Rightarrow> run_loop n e jsonlOutput pid s1)"

definition init_session :: "string \<Rightarrow> session" where
  "init_session input =
     \<lparr>currentMessages = [\<lparr>role = ''user'', parts = Some [text_part input]\<rparr>],
      turnCount = 0, trace = [], ticks = 0, sends = 0, execs = 0\<rparr>"

definition runNonInteractive :: "nat \<Rightarrow> env \<Rightarrow> string \<Rightarrow> string \<Rightarrow> bool
    \<Rightarrow> outcome option \<times> session" where
  "runNonInteractive n config input pid jsonlOutput =
     run_loop n config jsonlOutput pid (init_session input)"


section \<open>Reading JSON back\<close>

text \<open>
  A parser for the JSON texts of the model: strings with their escapes (an escape
  \<^verbatim>\<open>\uXXXX\<close> above U+007F, which \<open>JSON_stringify\<close> never writes, is refused), integers,
  literals, arrays and objects, with white space between tokens. The first argument of
  \<open>parse_value\<close> bounds the number of nested calls; the length of the text is enough.
\<close>

definition hex_val :: "char \<Rightarrow> nat option" where
  "hex_val c =
     (let k = (of_char c :: nat) in
      if 48 \<le> k \<and> k \<le> 57 then Some (k - 48)
      else if 97 \<le> k \<and> k \<le> 102 then Some (k - 87)
      else if 65 \<le> k \<and> k \<le> 70 then Some (k - 55)
      else None)"

definition unescape :: "char \<Rightarrow> char option" where
  "unescape x =
     (if x = CHR 0x22 then Some (CHR 0x22)
      else if x = CHR 0x5C then Some (CHR 0x5C)
      else if x = CHR ''/'' then Some (CHR ''/'')
      else if x = CHR ''b'' then Some (CHR 0x08)
      else if x = CHR ''f'' then Some (CHR 0x0C)
      else if x = CHR ''n'' then Some (CHR 0x0A)
      else if x = CHR ''r'' then Some (CHR 0x0D)
      else if x = CHR ''t'' then Some (CHR 0x09)
      else None)"

text \<open>What follows a backslash: the character it stands for and how many characters were read.\<close>

definition parse_escape :: "string \<Rightarrow> (char \<times> nat) option" where
  "parse_escape cs =
     (case cs of
        [] \<Rightarrow> None
      | x # r \<Rightarrow>
          if x = CHR ''u''
          then (case map hex_val (take 4 r) of
                  [Some a, Some b, Some c, Some d] \<Rightarrow>
                    (let n = ((a * 16 + b) * 16 + c) * 16 + d
                     in if n < 128 then Some (char_of n, 5) else None)
                | _ \<Rightarrow> None)
          else map_option (\<lambda>ch. (ch, 1)) (unescape x))"

definition cons_fst :: "'a \<Rightarrow> ('a list \<times> 'b) option \<Rightarrow> ('a list \<times> 'b) option" where
  "cons_fst x r = map_option (\<lambda>(xs, rest). (x # xs, rest)) r"

fun parse_chars :: "string \<Rightarrow> (string \<times> string) option" where
  "parse_chars [] = None"
| "parse_chars (c # cs) =
     (if c = CHR 0x22 then Some ([], cs)
      else if c = CHR 0x5C
        then (case parse_escape cs of
                None \<Rightarrow> None
              | Some (ch, k) \<Rightarrow> cons_fst ch (parse_chars (drop k cs)))
      else if (of_char c :: nat) < 32 then None
      else cons_fst c (parse_chars cs))"

definition is_ws :: "char \<Rightarrow> bool" where
  "is_ws c = (c = CHR '' '' \<or> c = CHR 0x09 \<or> c = CHR 0x0A \<or> c = CHR 0x0D)"

definition skip_ws :: "string \<Rightarrow> string" where
  "skip_ws cs = dropWhile is_ws cs"

definition is_digit :: "char \<Rightarrow> bool" where
  "is_digit c = (48 \<le> (of_char c :: nat) \<and> (of_char c :: nat) \<le> 57)"

definition digits_val :: "string \<Rightarrow> nat" where
  "digits_val ds = foldl (\<lambda>a c. 10 * a + ((of_char c :: nat) - 48)) 0 ds"

definition parse_number :: "string \<Rightarrow> (json \<times> string) option" where
  "parse_number cs =
     (let neg = (cs \<noteq> [] \<and> hd cs = CHR ''-'');
          cs1 = (if neg then tl cs else cs);
          ds = takeWhile is_digit cs1;
          rest = dropWhile is_digit cs1
      in if ds = [] \<or> (length ds > 1 \<and> hd ds = CHR ''0'') then None
         else Some (JNum (if neg then - int (digits_val ds) else int (digits_val ds)), rest))"

fun parse_value :: "nat \<Rightarrow> string \<Rightarrow> (json \<times> string) option"
  and parse_elements :: "nat \<Rightarrow> string \<Rightarrow> (json list \<times> string) option"
  and parse_members :: "nat \<Rightarrow> string \<Rightarrow> ((string \<times> json) list \<times> string) option" where
  "parse_value 0 cs = None"
| "parse_value (Suc n) cs =
     (case skip_ws cs of
        [] \<Rightarrow> None
      | c # r \<Rightarrow>
          if c = CHR 0x22 then map_option (\<lambda>(x, r1). (JStr x, r1)) (parse_chars r)
          else if c = CHR ''{''
            then (case skip_ws r of
                    [] \<Rightarrow> None
                  | d # r1 \<Rightarrow> if d = CHR ''}'' then Some (JObj [], r1)
                              else map_option (\<lambda>(kvs, r2). (JObj kvs, r2)) (parse_members n (d # r1)))
          else if c = CHR ''[''
            then (case skip_ws r of
                    [] \<Rightarrow> None
                  | d # r1 \<Rightarrow> if d = CHR '']'' then Some (JArr [], r1)
                              else map_option (\<lambda>(vs, r2). (JArr vs, r2)) (parse_elements n (d # r1)))
          else if take 4 (c # r) = ''null'' then Some (JNull, drop 4 (c # r))
          else if take 4 (c # r) = ''true'' then Some (JBool True, drop 4 (c # r))
          else if take 5 (c # r) = ''false'' then Some (JBool False, drop 5 (c # r))
          else parse_number (c # r))"
| "parse_elements 0 cs = None"
| "parse_elements (Suc n) cs =
     (case parse_value n cs of
        None \<Rightarrow> None
      | Some (v, r) \<Rightarrow>
          (case skip_ws r of
             [] \<Rightarrow> None
           | c # r1 \<Rightarrow>
               if c = CHR '']'' then Some ([v], r1)
               else if c = CHR '','' then cons_fst v (parse_elements n r1)
               else None))"
| "parse_members 0 cs = None"
| "parse_members (Suc n) cs =
     (case skip_ws cs of
        [] \<Rightarrow> None
      | q # r \<Rightarrow>
          if q \<noteq> CHR 0x22 then None
          else (case parse_chars r of
                  None \<Rightarrow> None
                | Some (k, r1) \<Rightarrow>
                    (case skip_ws r1 of
                       [] \<Rightarrow> None
                     | c # r2 \<Rightarrow>
                         if c \<noteq> CHR '':'' then None
                         else (case parse_value n r2 of
                                 None \<Rightarrow> None
                               | Some (v, r3) \<Rightarrow>
                                   (case skip_ws r3 of
                                      [] \<Rightarrow> None
                                    | d # r4 \<Rightarrow>
                                        if d = CHR ''}'' then Some ([(k, v)], r4)
                                        else if d = CHR '','' then cons_fst (k, v) (parse_members n r4)
                                        else None)))))"

definition JSON_parse :: "string \<Rightarrow> json option" where
  "JSON_parse text =
     (case parse_value (length text) text of
        None \<Rightarrow> None
      | Some (v, r) \<Rightarrow> if skip_ws r = [] then Some v else None)"


text \<open>A property of a record, and a property of its \<^verbatim>\<open>data\<close>.\<close>

definition field :: "string \<Rightarrow> json \<Rightarrow> json option" where
  "field k j = (case j of JObj kvs \<Rightarrow> map_of kvs k | _ \<Rightarrow> None)"

definition data_field :: "string \<Rightarrow> json \<Rightarrow> json option" where
  "data_field k j = (case field ''data'' j of None \<Rightarrow> None | Some d \<Rightarrow> field k d)"


section \<open>Reading the log of effects\<close>

text \<open>
  The strings written to standard output, the messages given to \<^verbatim>\<open>console.error\<close>, the
  calls of the agent client (parts, prompt identifier, stream returned), the calls of the
  tool executor (request, answer) and the exit codes, each in the order of the log.
\<close>

definition stdout_writes :: "effect list \<Rightarrow> string list" where
  "stdout_writes tr = concat (map (\<lambda>x. case x of StdoutWrite w \<Rightarrow> [w] | _ \<Rightarrow> []) tr)"

definition console_errors :: "effect list \<Rightarrow> string list" where
  "console_errors tr = concat (map (\<lambda>x. case x of ConsoleError w \<Rightarrow> [w] | _ \<Rightarrow> []) tr)"

definition sent :: "effect list \<Rightarrow> (part list \<times> string \<times> stream) list" where
  "sent tr = concat (map (\<lambda>x. case x of SendMessageStream ps pid st \<Rightarrow> [(ps, pid, st)] | _ \<Rightarrow> []) tr)"

definition executed :: "effect list \<Rightarrow> (tool_call_request_info \<times> (string + tool_response)) list" where
  "executed tr = concat (map (\<lambda>x. case x of ExecuteToolCall req a \<Rightarrow> [(req, a)] | _ \<Rightarrow> []) tr)"

definition exits :: "effect list \<Rightarrow> int list" where
  "exits tr = concat (map (\<lambda>x. case x of ProcessExit c \<Rightarrow> [c] | _ \<Rightarrow> []) tr)"

text \<open>The text fragments and the tool-call requests of a stream, in order.\<close>

definition fragments :: "(bool \<times> event) list \<Rightarrow> string list" where
  "fragments its = concat (map (\<lambda>(a, ev). case ev of Content v \<Rightarrow> [v] | _ \<Rightarrow> []) its)"

definition requests :: "(bool \<times> event) list \<Rightarrow> tool_call_request list" where
  "requests its = concat (map (\<lambda>(a, ev). case ev of ToolCallRequest r \<Rightarrow> [r] | _ \<Rightarrow> []) its)"

text \<open>All the text fragments of all the streams the agent client returned.\<close>

definition received :: "effect list \<Rightarrow> string list" where
  "received tr = concat (map (\<lambda>(ps, pid, st). fragments (items st)) (sent tr))"

text \<open>The number of newline characters at the end of a text.\<close>

definition trailing_newlines :: "string \<Rightarrow> nat" where
  "trailing_newlines out = length (takeWhile (\<lambda>c. c = CHR 0x0A) (rev out))"


section \<open>Notions used in the statements\<close>

text \<open>The test of the turn limit, on the session before the counter is incremented.\<close>

definition limit_reached :: "env \<Rightarrow> session \<Rightarrow> bool" where
  "limit_reached e s =
     (getMaxSessionTurns e \<ge> 0 \<and> int (Suc (turnCount s)) > getMaxSessionTurns e)"

text \<open>The session right after the agent client was called in a turn.\<close>

definition opened :: "env \<Rightarrow> string \<Rightarrow> session \<Rightarrow> session" where
  "opened e pid s =
     emit (SendMessageStream (first_parts (currentMessages s)) pid
             (sendMessageStream e (sends s) (first_parts (currentMessages s)) pid))
          (s\<lparr>turnCount := Suc (turnCount s), sends := Suc (sends s)\<rparr>)"

text \<open>The identifier \<open>resolve_callId\<close> gives, as a value.\<close>

definition resolved_id :: "env \<Rightarrow> function_call \<Rightarrow> session \<Rightarrow> string" where
  "resolved_id e fc s =
     (case fc_id fc of Some i \<Rightarrow> i | None \<Rightarrow> fc_name fc @ ''-'' @ dec (clock e (ticks s)))"

definition id_of_call :: "function_call \<Rightarrow> string \<Rightarrow> bool" where
  "id_of_call fc cid =
     (case fc_id fc of Some i \<Rightarrow> cid = i | None \<Rightarrow> \<exists>t. cid = fc_name fc @ ''-'' @ dec t)"

text \<open>
  What one tool call that the executor answers leaves in the log: the call with its
  answer, the \<^verbatim>\<open>tool_result\<close> line in JSONL mode, the diagnostic when the response has an
  error. \<open>tool_phase\<close> is the log of a batch of such calls, each with its identifier, its
  response and the time stamp of its record.
\<close>

definition call_effects :: "bool \<Rightarrow> string \<Rightarrow> function_call \<Rightarrow> string \<Rightarrow> tool_response \<Rightarrow> string
    \<Rightarrow> effect list" where
  "call_effects j pid fc cid r ts =
     [ExecuteToolCall (requestInfo cid fc pid) (Inr r)] @
     (if j then [StdoutWrite (jsonl_line (tool_result_event cid (fc_name fc) r ts))] else []) @
     (case error r of
        Some m \<Rightarrow> [ConsoleError (tool_error_notice (fc_name fc) r m)]
      | None \<Rightarrow> [])"

definition tool_phase :: "bool \<Rightarrow> string \<Rightarrow> function_call list
    \<Rightarrow> (string \<times> tool_response \<times> string) list \<Rightarrow> effect list" where
  "tool_phase j pid fcs xs =
     concat (map (\<lambda>(fc, cid, r, ts). call_effects j pid fc cid r ts) (zip fcs xs))"

text \<open>The parts that a logged execution contributes to the next message.\<close>

definition answer_parts :: "tool_call_request_info \<times> (string + tool_response) \<Rightarrow> part list" where
  "answer_parts x = (case snd x of Inr r \<Rightarrow> pushed_parts (responseParts r) | Inl err \<Rightarrow> [])"

text \<open>
  The normalization of response parts in the words of the specification, to compare
  \<open>pushed_parts\<close> with: a single part or a sequence is flattened; each part that is plain
  text is wrapped as a text part, any other part is passed through, falsy entries are
  skipped.
\<close>

fun wrap_or_pass_spec :: "part_union \<Rightarrow> part list" where
  "wrap_or_pass_spec (PString x) = [text_part x]"
| "wrap_or_pass_spec (PObject p) = [p]"
| "wrap_or_pass_spec PFalsy = []"

definition normalized_parts_spec :: "part_list_union \<Rightarrow> part list" where
  "normalized_parts_spec r =
     concat (map wrap_or_pass_spec (case r of Single p \<Rightarrow> [p] | Many ps \<Rightarrow> ps))"

text \<open>
  Assumptions on the collaborators that some statements need: the tool executor never
  throws; no event of a stream is delivered with the cancellation flag set; every stream
  of the agent is of that kind, does not fail and asks for a tool.
\<close>

definition never_throws :: "env \<Rightarrow> bool" where
  "never_throws e = (\<forall>k req. \<exists>r. executeToolCall e k req = Inr r)"

definition unaborted :: "(bool \<times> event) list \<Rightarrow> bool" where
  "unaborted its = (\<forall>x \<in> set its. \<not> fst x)"

definition requests_tools_forever :: "env \<Rightarrow> bool" where
  "requests_tools_forever e =
     (never_throws e \<and>
      (\<forall>k ps pid. unaborted (items (sendMessageStream e k ps pid)) \<and>
                  failure (sendMessageStream e k ps pid) = None \<and>
                  requests (items (sendMessageStream e k ps pid)) \<noteq> []))"

text \<open>
  What the driver may print on the error stream outside the limit branch: the cancellation
  notice, the diagnostic of a tool error, and the diagnostic of a failure of the agent
  client or of the tool executor.
\<close>

definition may_print :: "env \<Rightarrow> string \<Rightarrow> bool" where
  "may_print e x =
     (x = cancel_notice \<or> (\<exists>nm r m. x = tool_error_notice nm r m) \<or>
      (\<exists>k ps pid. failure (sendMessageStream e k ps pid) = Some x) \<or>
      (\<exists>k req. executeToolCall e k req = Inl x))"


text \<open>
  The stream that the agent returns in the turn that starts from a session, the function
  calls collected from its tool-call requests, and the session when the \<^verbatim>\<open>for await\<close> loop
  over the stream is left. \<open>result_records\<close> are the \<^verbatim>\<open>tool_result\<close> records of the executions
  that returned, one for each, in their order.
\<close>

definition turn_stream :: "env \<Rightarrow> string \<Rightarrow> session \<Rightarrow> stream" where
  "turn_stream e pid s = sendMessageStream e (sends s) (first_parts (currentMessages s)) pid"

definition requested :: "env \<Rightarrow> string \<Rightarrow> session \<Rightarrow> function_call list" where
  "requested e pid s = map to_call (requests (items (turn_stream e pid s)))"

definition drained :: "env \<Rightarrow> bool \<Rightarrow> string \<Rightarrow> session \<Rightarrow> session" where
  "drained e j pid s = snd (drain e j (items (turn_stream e pid s)) [] (opened e pid s))"

definition result_records :: "function_call list \<Rightarrow> (string \<times> tool_response \<times> string) list \<Rightarrow> json list" where
  "result_records fcs xs = map (\<lambda>(fc, cid, r, ts). tool_result_event cid (fc_name fc) r ts) (zip fcs xs)"


section \<open>Example environments\<close>

text \<open>
  An agent that sends some text and asks for one tool call in every turn, with a tool that
  reports an error; and an environment whose agent answers the \<open>k\<close>-th call with the
  \<open>k\<close>-th stream of a list (an empty stream afterwards) and whose tool executor always
  gives the same answer.
\<close>

definition busy_env :: "int \<Rightarrow> env" where
  "busy_env L =
     \<lparr>getMaxSessionTurns = L,
      sendMessageStream = (\<lambda>k ps pid.
        \<lparr>items = [(False, Content ''working''),
                   (False, ToolCallRequest (ToolCallRequestValue ''search'' (Some [(''q'', JStr ''x'')]) None))],
         failure = None\<rparr>),
      executeToolCall = (\<lambda>k req.
        Inr \<lparr>resultDisplay = None, error = Some ''boom'', responseParts = Single PFalsy\<rparr>),
      clock = (\<lambda>k. 1700000000000 + k),
      toISOString = (\<lambda>t. ''2023-11-14T22:13:20.000Z'')\<rparr>"

definition scripted_env :: "int \<Rightarrow> stream list \<Rightarrow> (string + tool_response) \<Rightarrow> env" where
  "scripted_env L streams answer =
     \<lparr>getMaxSessionTurns = L,
      sendMessageStream = (\<lambda>k ps pid.
        if k < length streams then streams ! k else \<lparr>items = [], failure = None\<rparr>),
      executeToolCall = (\<lambda>k req. answer),
      clock = (\<lambda>k. 1700000000000 + k),
      toISOString = (\<lambda>t. ''2023-11-14T22:13:20.000Z'')\<rparr>"

text \<open>
  A stream of plain text that ends with a newline; a stream whose third event arrives
  after cancellation; a session whose batch holds two messages.
\<close>

definition chat_stream :: stream where
  "chat_stream = \<lparr>items = [(False, Content ''Hello''), (False, OtherEvent), (False, Content [CHR ''!'', CHR 0x0A])],
                  failure = None\<rparr>"

definition cancelled_stream :: stream where
  "cancelled_stream =
     \<lparr>items = [(False, Content ''a''),
               (False, ToolCallRequest (ToolCallRequestValue ''ls'' None (Some ''call-1''))),
               (True, Content ''b''),
               (False, Content ''c'')],
      failure = None\<rparr>"

definition two_messages :: session where
  "two_messages =
     (init_session ''one'')
       \<lparr>currentMessages := [\<lparr>role = ''user'', parts = Some [text_part ''one'']\<rparr>,
                            \<lparr>role = ''user'', parts = Some [text_part ''two'']\<rparr>]\<rparr>"

text \<open>
  The scenario of the specification: the agent asks for the tool \<^verbatim>\<open>search\<close> with arguments
  \<^verbatim>\<open>{q: "x"}\<close> and no identifier, and the tool answers with the error \<^verbatim>\<open>boom\<close>. And a
  tool response with an empty display string and no error.
\<close>

definition scenario_stream :: stream where
  "scenario_stream =
     \<lparr>items = [(False, ToolCallRequest (ToolCallRequestValue ''search'' (Some [(''q'', JStr ''x'')]) None))],
      failure = None\<rparr>"

definition boom :: tool_response where
  "boom = \<lparr>resultDisplay = None, error = Some ''boom'', responseParts = Single PFalsy\<rparr>"

definition scenario_env :: env where
  "scenario_env = scripted_env (- 1) [scenario_stream] (Inr boom)"

definition search_call :: function_call where
  "search_call = FunctionCall ''search'' (Some [(''q'', JStr ''x'')]) None"

definition search_request :: "string \<Rightarrow> tool_call_request_info" where
  "search_request cid =
     \<lparr>callId = cid, name = ''search'', args = [(''q'', JStr ''x'')],
      isClientInitiated = False, prompt_id = ''p1''\<rparr>"



text \<open>
  A stream with three tool-call requests, for three different tools, and some text between
  them; a tool executor that answers every call with the name of the tool and the
  identifier of the call; and one whose second call throws.
\<close>

definition three_calls_stream :: stream where
  "three_calls_stream =
     \<lparr>items = [(False, ToolCallRequest (ToolCallRequestValue ''read'' None (Some ''c1''))),
               (False, Content ''ok''),
               (False, ToolCallRequest (ToolCallRequestValue ''grep'' None (Some ''c2''))),
               (False, ToolCallRequest (ToolCallRequestValue ''write'' None (Some ''c3'')))],
      failure = None\<rparr>"

definition echo :: "tool_call_request_info \<Rightarrow> tool_response" where
  "echo req = \<lparr>resultDisplay = Some (name req), error = None, responseParts = Single (PString (callId req))\<rparr>"

definition echo_env :: env where
  "echo_env = (scripted_env (- 1) [three_calls_stream] (Inl []))\<lparr>executeToolCall := (\<lambda>k req. Inr (echo req))\<rparr>"

definition crashing_env :: env where
  "crashing_env =
     echo_env\<lparr>executeToolCall := (\<lambda>k req. if k = 1 then Inl ''disk full'' else Inr (echo req))\<rparr>"

definition call_request :: "string \<Rightarrow> string \<Rightarrow> tool_call_request_info" where
  "call_request cid nm = \<lparr>callId = cid, name = nm, args = [], isClientInitiated = False, prompt_id = ''p1''\<rparr>"

definition stamp :: string where
  "stamp = ''2023-11-14T22:13:20.000Z''"


section \<open>Auxiliary facts\<close>

lemma stdout_writes_append: "stdout_writes (a @ b) = stdout_writes a @ stdout_writes b"
  by (simp add: stdout_writes_def)
lemma console_errors_append: "console_errors (a @ b) = console_errors a @ console_errors b"
  by (simp add: console_errors_def)
lemma sent_append: "sent (a @ b) = sent a @ sent b"
  by (simp add: sent_def)
lemma executed_append: "executed (a @ b) = executed a @ executed b"
  by (simp add: executed_def)
lemma exits_append: "exits (a @ b) = exits a @ exits b"
  by (simp add: exits_def)

lemmas proj_append = stdout_writes_append console_errors_append sent_append executed_append exits_append

lemma proj_Nil:
  "stdout_writes [] = []" "console_errors [] = []" "sent [] = []" "executed [] = []" "exits [] = []"
  by (simp_all add: stdout_writes_def console_errors_def sent_def executed_def exits_def)

lemma proj_Cons:
  "stdout_writes (x # tr) = (case x of StdoutWrite w \<Rightarrow> [w] | _ \<Rightarrow> []) @ stdout_writes tr"
  "console_errors (x # tr) = (case x of ConsoleError w \<Rightarrow> [w] | _ \<Rightarrow> []) @ console_errors tr"
  "sent (x # tr) = (case x of SendMessageStream ps pid st \<Rightarrow> [(ps, pid, st)] | _ \<Rightarrow> []) @ sent tr"
  "executed (x # tr) = (case x of ExecuteToolCall req a \<Rightarrow> [(req, a)] | _ \<Rightarrow> []) @ executed tr"
  "exits (x # tr) = (case x of ProcessExit c \<Rightarrow> [c] | _ \<Rightarrow> []) @ exits tr"
  by (simp_all add: stdout_writes_def console_errors_def sent_def executed_def exits_def)

lemmas proj_single = proj_Nil proj_Cons

lemma emit_fields [simp]:
  "trace (emit x s) = trace s @ [x]"
  "ticks (emit x s) = ticks s"
  "sends (emit x s) = sends s"
  "execs (emit x s) = execs s"
  "turnCount (emit x s) = turnCount s"
  "currentMessages (emit x s) = currentMessages s"
  by (simp_all add: emit_def)

lemma isoNow_eq: "isoNow e s = (toISOString e (clock e (ticks s)), s\<lparr>ticks := Suc (ticks s)\<rparr>)"
  by (simp add: isoNow_def)

lemma drain_frame:
  "drain e j its fcs s = (r, s') \<Longrightarrow>
     sends s' = sends s \<and> execs s' = execs s \<and> turnCount s' = turnCount s \<and>
     currentMessages s' = currentMessages s \<and>
     sent (trace s') = sent (trace s) \<and> executed (trace s') = executed (trace s) \<and>
     exits (trace s') = exits (trace s)"
proof (induction its arbitrary: fcs s)
  case Nil
  then show ?case by simp
next
  case (Cons it its)
  obtain aborted ev where it: "it = (aborted, ev)" by (cases it)
  show ?case
  proof (cases aborted)
    case True
    with Cons.prems it show ?thesis by (auto simp: proj_append proj_single)
  next
    case False
    show ?thesis
    proof (cases ev)
      case (Content v)
      with Cons.prems it False
      have "drain e j its fcs (if j then emit (StdoutWrite (jsonl_line (token_event v (toISOString e (clock e (ticks s)))))) (s\<lparr>ticks := Suc (ticks s)\<rparr>) else emit (StdoutWrite v) s) = (r, s')"
        by (simp add: isoNow_eq split: if_splits)
      from Cons.IH[OF this] show ?thesis by (simp add: proj_append proj_single split: if_splits)
    next
      case (ToolCallRequest q)
      with Cons.prems it False
      have "drain e j its (fcs @ [to_call q]) (if j then emit (StdoutWrite (jsonl_line (tool_call_event q (toISOString e (clock e (ticks s)))))) (s\<lparr>ticks := Suc (ticks s)\<rparr>) else s) = (r, s')"
        by (simp add: isoNow_eq split: if_splits)
      from Cons.IH[OF this] show ?thesis by (simp add: proj_append proj_single split: if_splits)
    next
      case OtherEvent
      with Cons.prems it False have "drain e j its fcs s = (r, s')" by simp
      from Cons.IH[OF this] show ?thesis .
    qed
  qed
qed

lemma dateNow_eq: "dateNow e s = (clock e (ticks s), s\<lparr>ticks := Suc (ticks s)\<rparr>)"
  by (simp add: dateNow_def)

lemma exec_tool_Inl:
  assumes "executeToolCall e (execs s) (requestInfo (resolved_id e fc s) fc pid) = Inl err"
  shows "\<exists>s'. exec_tool e j pid fc acc s = (Inl err, s') \<and>
           trace s' = trace s @ [ExecuteToolCall (requestInfo (resolved_id e fc s) fc pid) (Inl err)] \<and>
           execs s' = Suc (execs s) \<and> sends s' = sends s \<and> turnCount s' = turnCount s \<and>
           currentMessages s' = currentMessages s"
  using assms
  by (cases "fc_id fc") (simp_all add: exec_tool_def resolve_callId_def resolved_id_def dateNow_eq Let_def)

lemma exec_tool_Inr:
  assumes "executeToolCall e (execs s) (requestInfo (resolved_id e fc s) fc pid) = Inr r"
  shows "\<exists>s' ts. exec_tool e j pid fc acc s = (Inr (acc @ pushed_parts (responseParts r)), s') \<and>
           trace s' = trace s @ call_effects j pid fc (resolved_id e fc s) r ts \<and>
           execs s' = Suc (execs s) \<and> sends s' = sends s \<and> turnCount s' = turnCount s \<and>
           currentMessages s' = currentMessages s"
  using assms
  by (cases "fc_id fc"; cases "error r"; cases j)
     (auto simp add: exec_tool_def resolve_callId_def resolved_id_def dateNow_eq isoNow_eq Let_def
        call_effects_def)

lemma exec_tool_frame:
  "exec_tool e j pid fc acc s = (res, s') \<Longrightarrow>
     execs s' = Suc (execs s) \<and> sends s' = sends s \<and> turnCount s' = turnCount s \<and>
     currentMessages s' = currentMessages s \<and> sent (trace s') = sent (trace s) \<and>
     exits (trace s') = exits (trace s) \<and>
     (\<not> j \<longrightarrow> stdout_writes (trace s') = stdout_writes (trace s))"
proof (cases "executeToolCall e (execs s) (requestInfo (resolved_id e fc s) fc pid)")
  case (Inl err)
  from exec_tool_Inl[OF this, of j acc] show "exec_tool e j pid fc acc s = (res, s') \<Longrightarrow> ?thesis"
    by (auto simp: proj_append proj_single)
next
  case (Inr r)
  from exec_tool_Inr[OF this, of j acc] show "exec_tool e j pid fc acc s = (res, s') \<Longrightarrow> ?thesis"
    by (auto simp: proj_append proj_single call_effects_def split: option.splits)
qed

lemma exec_tools_frame:
  "exec_tools e j pid fcs acc s = (res, s') \<Longrightarrow>
     sends s' = sends s \<and> turnCount s' = turnCount s \<and>
     currentMessages s' = currentMessages s \<and> sent (trace s') = sent (trace s) \<and>
     (\<not> j \<longrightarrow> stdout_writes (trace s') = stdout_writes (trace s)) \<and>
     (isl res \<or> exits (trace s') = exits (trace s))"
proof (induction fcs arbitrary: acc s)
  case Nil
  then show ?case by auto
next
  case (Cons fc fcs)
  obtain r1 s1 where step: "exec_tool e j pid fc acc s = (r1, s1)" by (cases "exec_tool e j pid fc acc s")
  note fr = exec_tool_frame[OF step]
  show ?case
  proof (cases r1)
    case (Inl err)
    with Cons.prems step fr show ?thesis by auto
  next
    case (Inr acc1)
    with Cons.prems step have "exec_tools e j pid fcs acc1 s1 = (res, s')" by simp
    from Cons.IH[OF this] fr show ?thesis by auto
  qed
qed

lemma turn_if:
  "turn e j pid s =
     (if limit_reached e s
      then (Some LimitReached, emit (ConsoleError limit_notice) (s\<lparr>turnCount := Suc (turnCount s)\<rparr>))
      else
       (case drain e j (items (sendMessageStream e (sends s) (first_parts (currentMessages s)) pid)) []
               (opened e pid s) of
          (None, s2) \<Rightarrow> (Some Cancelled, s2)
        | (Some functionCalls, s2) \<Rightarrow>
            (case failure (sendMessageStream e (sends s) (first_parts (currentMessages s)) pid) of
               Some err \<Rightarrow> fail err s2
             | None \<Rightarrow>
                 if length functionCalls > 0
                 then (case exec_tools e j pid functionCalls [] s2 of
                         (Inl err, s3) \<Rightarrow> fail err s3
                       | (Inr toolParts, s3) \<Rightarrow>
                           (None, s3\<lparr>currentMessages := [\<lparr>role = ''user'', parts = Some toolParts\<rparr>]\<rparr>))
                 else (Some Completed, emit (StdoutWrite [CHR 0x0A]) s2))))"
  unfolding turn_def limit_reached_def opened_def Let_def emit_def
  by (simp split: prod.splits option.splits)

lemma turn_limit:
  "limit_reached e s \<Longrightarrow>
     turn e j pid s = (Some LimitReached, emit (ConsoleError limit_notice) (s\<lparr>turnCount := Suc (turnCount s)\<rparr>))"
  by (simp add: turn_if)

lemma turn_unfold:
  "\<not> limit_reached e s \<Longrightarrow>
     turn e j pid s =
       (case drain e j (items (sendMessageStream e (sends s) (first_parts (currentMessages s)) pid)) []
               (opened e pid s) of
          (None, s2) \<Rightarrow> (Some Cancelled, s2)
        | (Some functionCalls, s2) \<Rightarrow>
            (case failure (sendMessageStream e (sends s) (first_parts (currentMessages s)) pid) of
               Some err \<Rightarrow> fail err s2
             | None \<Rightarrow>
                 if length functionCalls > 0
                 then (case exec_tools e j pid functionCalls [] s2 of
                         (Inl err, s3) \<Rightarrow> fail err s3
                       | (Inr toolParts, s3) \<Rightarrow>
                           (None, s3\<lparr>currentMessages := [\<lparr>role = ''user'', parts = Some toolParts\<rparr>]\<rparr>))
                 else (Some Completed, emit (StdoutWrite [CHR 0x0A]) s2)))"
  by (simp add: turn_if)

lemma opened_fields:
  "trace (opened e pid s) = trace s @ [SendMessageStream (first_parts (currentMessages s)) pid
             (sendMessageStream e (sends s) (first_parts (currentMessages s)) pid)]"
  "sends (opened e pid s) = Suc (sends s)"
  "turnCount (opened e pid s) = Suc (turnCount s)"
  "execs (opened e pid s) = execs s"
  "ticks (opened e pid s) = ticks s"
  "currentMessages (opened e pid s) = currentMessages s"
  by (simp_all add: opened_def)

lemma turn_step:
  assumes nl: "\<not> limit_reached e s" and t: "turn e j pid s = (out, s')"
  shows "out \<noteq> Some LimitReached \<and> sends s' = Suc (sends s) \<and> turnCount s' = Suc (turnCount s) \<and>
         sent (trace s') = sent (trace s) @ [(first_parts (currentMessages s), pid,
             sendMessageStream e (sends s) (first_parts (currentMessages s)) pid)] \<and>
         (out = None \<longrightarrow> length (currentMessages s') = 1) \<and>
         (out \<noteq> None \<longrightarrow> currentMessages s' = currentMessages s) \<and>
         (out \<noteq> Some Failed \<longrightarrow> exits (trace s') = exits (trace s))"
proof -
  let ?st = "sendMessageStream e (sends s) (first_parts (currentMessages s)) pid"
  obtain d s2 where d: "drain e j (items ?st) [] (opened e pid s) = (d, s2)"
    by (cases "drain e j (items ?st) [] (opened e pid s)")
  note df = drain_frame[OF d, unfolded opened_fields]
  have base: "sent (trace s2) = sent (trace s) @ [(first_parts (currentMessages s), pid, ?st)]"
    using df by (simp add: proj_append proj_single)
  have ex2: "exits (trace s2) = exits (trace s)"
    using df by (simp add: proj_append proj_single)
  show ?thesis
  proof (cases d)
    case None
    with t d nl df base ex2 show ?thesis by (auto simp add: turn_unfold)
  next
    case (Some fcs)
    show ?thesis
    proof (cases "failure ?st")
      case (Some err)
      with t d nl df base \<open>d = Some fcs\<close> show ?thesis
        by (auto simp add: turn_unfold fail_def proj_append proj_single)
    next
      case None
      show ?thesis
      proof (cases "fcs = []")
        case True
        with t d nl df base ex2 None \<open>d = Some fcs\<close> show ?thesis
          by (auto simp add: turn_unfold proj_append proj_single)
      next
        case False
        obtain r3 s3 where x: "exec_tools e j pid fcs [] s2 = (r3, s3)"
          by (cases "exec_tools e j pid fcs [] s2")
        note xf = exec_tools_frame[OF x]
        show ?thesis
        proof (cases r3)
          case (Inl err)
          with t d nl df base None \<open>d = Some fcs\<close> False x xf show ?thesis
            by (auto simp add: turn_unfold fail_def proj_append proj_single)
        next
          case (Inr ps)
          with t d nl df base ex2 None \<open>d = Some fcs\<close> False x xf show ?thesis
            by (auto simp add: turn_unfold proj_append proj_single)
        qed
      qed
    qed
  qed
qed

lemma drain_step:
  "drain e j ((False, Content v) # rest) fcs s =
     drain e j rest fcs
       (if j then emit (StdoutWrite (jsonl_line (token_event v (toISOString e (clock e (ticks s))))))
                   (s\<lparr>ticks := Suc (ticks s)\<rparr>)
        else emit (StdoutWrite v) s)"
  "drain e j ((False, ToolCallRequest q) # rest) fcs s =
     drain e j rest (fcs @ [to_call q])
       (if j then emit (StdoutWrite (jsonl_line (tool_call_event q (toISOString e (clock e (ticks s))))))
                   (s\<lparr>ticks := Suc (ticks s)\<rparr>)
        else s)"
  "drain e j ((False, OtherEvent) # rest) fcs s = drain e j rest fcs s"
  "drain e j ((True, ev) # rest) fcs s = (None, emit (ConsoleError cancel_notice) s)"
  by (simp_all add: isoNow_eq to_call_def)

lemma requests_simps:
  "requests [] = []"
  "requests ((a, Content v) # its) = requests its"
  "requests ((a, ToolCallRequest q) # its) = q # requests its"
  "requests ((a, OtherEvent) # its) = requests its"
  "fragments [] = []"
  "fragments ((a, Content v) # its) = v # fragments its"
  "fragments ((a, ToolCallRequest q) # its) = fragments its"
  "fragments ((a, OtherEvent) # its) = fragments its"
  by (simp_all add: requests_def fragments_def)

lemma drain_unaborted:
  "unaborted its \<Longrightarrow>
     \<exists>s'. drain e j its fcs s = (Some (fcs @ map to_call (requests its)), s') \<and>
          console_errors (trace s') = console_errors (trace s) \<and>
          (\<not> j \<longrightarrow> stdout_writes (trace s') = stdout_writes (trace s) @ fragments its \<and>
                   ticks s' = ticks s)"
proof (induction its arbitrary: fcs s)
  case Nil
  then show ?case by (simp add: requests_simps)
next
  case (Cons it its)
  obtain a ev where it: "it = (a, ev)" by (cases it)
  from Cons.prems it have a: "\<not> a" and u: "unaborted its" by (auto simp: unaborted_def)
  show ?case
  proof (cases ev)
    case (Content v)
    from Cons.IH[OF u, of fcs "if j then emit (StdoutWrite (jsonl_line (token_event v (toISOString e (clock e (ticks s))))))
                   (s\<lparr>ticks := Suc (ticks s)\<rparr>) else emit (StdoutWrite v) s"]
    show ?thesis using it a Content
      by (auto simp add: drain_step requests_simps proj_append proj_single simp del: drain.simps)
  next
    case (ToolCallRequest q)
    from Cons.IH[OF u, of "fcs @ [to_call q]" "if j then emit (StdoutWrite (jsonl_line (tool_call_event q (toISOString e (clock e (ticks s))))))
                   (s\<lparr>ticks := Suc (ticks s)\<rparr>) else s"]
    show ?thesis using it a ToolCallRequest
      by (auto simp add: drain_step requests_simps proj_append proj_single simp del: drain.simps)
  next
    case OtherEvent
    from Cons.IH[OF u, of fcs s]
    show ?thesis using it a OtherEvent
      by (auto simp add: drain_step requests_simps simp del: drain.simps)
  qed
qed

lemma drain_Some_unaborted:
  "drain e j its fcs s = (Some fcs', s') \<Longrightarrow> unaborted its"
proof (induction its arbitrary: fcs s)
  case Nil
  then show ?case by (simp add: unaborted_def)
next
  case (Cons it its)
  obtain a ev where it: "it = (a, ev)" by (cases it)
  with Cons.prems have a: "\<not> a" by (auto split: if_splits)
  from Cons.prems it a have "\<exists>fcs1 s1. drain e j its fcs1 s1 = (Some fcs', s')"
    by (cases ev) (auto simp add: drain_step simp del: drain.simps)
  with Cons.IH have "unaborted its" by blast
  with it a show ?case by (simp add: unaborted_def)
qed

lemma drain_append:
  "drain e j (pre @ rest) fcs s =
     (case drain e j pre fcs s of
        (None, s1) \<Rightarrow> (None, s1)
      | (Some fcs1, s1) \<Rightarrow> drain e j rest fcs1 s1)"
proof (induction pre arbitrary: fcs s)
  case Nil
  then show ?case by simp
next
  case (Cons it pre)
  obtain a ev where it: "it = (a, ev)" by (cases it)
  show ?case
  proof (cases a)
    case True
    with it show ?thesis by (simp add: drain_step del: drain.simps)
  next
    case False
    with it Cons.IH show ?thesis
      by (cases ev) (simp_all add: drain_step del: drain.simps)
  qed
qed

lemma exec_tools_total:
  "never_throws e \<Longrightarrow> \<exists>ps s'. exec_tools e j pid fcs acc s = (Inr ps, s')"
proof (induction fcs arbitrary: acc s)
  case Nil
  then show ?case by simp
next
  case (Cons fc fcs)
  from Cons.prems obtain r where
    "executeToolCall e (execs s) (requestInfo (resolved_id e fc s) fc pid) = Inr r"
    unfolding never_throws_def by blast
  from exec_tool_Inr[OF this, of j acc] obtain s1 where
    "exec_tool e j pid fc acc s = (Inr (acc @ pushed_parts (responseParts r)), s1)" by blast
  with Cons.IH[OF Cons.prems, of "acc @ pushed_parts (responseParts r)" s1] show ?case by simp
qed

lemma turn_busy:
  assumes b: "requests_tools_forever e" and nl: "\<not> limit_reached e s"
  shows "\<exists>s'. turn e j pid s = (None, s')"
proof -
  let ?st = "sendMessageStream e (sends s) (first_parts (currentMessages s)) pid"
  from b have u: "unaborted (items ?st)" and f: "failure ?st = None" and r: "requests (items ?st) \<noteq> []"
    and nt: "never_throws e"
    by (simp_all add: requests_tools_forever_def)
  from drain_unaborted[OF u, of e j "[]" "opened e pid s"] obtain s2 where
    d: "drain e j (items ?st) [] (opened e pid s) = (Some (map to_call (requests (items ?st))), s2)"
    by auto
  from exec_tools_total[OF nt, of j pid "map to_call (requests (items ?st))" "[]" s2] obtain ps s3 where
    x: "exec_tools e j pid (map to_call (requests (items ?st))) [] s2 = (Inr ps, s3)" by blast
  from nl d f r x show ?thesis by (simp add: turn_unfold)
qed

lemma run_loop_bounded:
  assumes L: "0 \<le> getMaxSessionTurns e"
    and inv: "sends s = turnCount s" "turnCount s \<le> nat (getMaxSessionTurns e)" "exits (trace s) = []"
    and r: "run_loop n e j pid s = (out, s')"
  shows "sends s' \<le> nat (getMaxSessionTurns e) \<and>
         (out = Some LimitReached \<longrightarrow>
            sends s' = nat (getMaxSessionTurns e) \<and> exits (trace s') = [] \<and>
            last (trace s') = ConsoleError limit_notice) \<and>
         (nat (getMaxSessionTurns e) - turnCount s < n \<longrightarrow> out \<noteq> None)"
  using inv r
proof (induction n arbitrary: s)
  case 0
  then show ?case by auto
next
  case (Suc n)
  obtain o1 s1 where t: "turn e j pid s = (o1, s1)" by (cases "turn e j pid s")
  show ?case
  proof (cases "limit_reached e s")
    case True
    with t Suc.prems L show ?thesis
      by (auto simp add: turn_limit limit_reached_def proj_append proj_single)
  next
    case False
    note st = turn_step[OF False t]
    from False L Suc.prems(2) have lt: "turnCount s < nat (getMaxSessionTurns e)"
      by (auto simp add: limit_reached_def)
    show ?thesis
    proof (cases o1)
      case None
      with t Suc.prems have run: "run_loop n e j pid s1 = (out, s')" by simp
      from st None Suc.prems lt have "sends s1 = turnCount s1" "turnCount s1 \<le> nat (getMaxSessionTurns e)"
        "exits (trace s1) = []" by auto
      moreover from st have "turnCount s1 = Suc (turnCount s)" by simp
      ultimately show ?thesis using Suc.IH[OF _ _ _ run] lt by auto
    next
      case (Some x)
      with t Suc.prems st lt show ?thesis by auto
    qed
  qed
qed

lemma run_loop_unlimited:
  assumes L: "getMaxSessionTurns e < 0"
  shows "fst (run_loop n e j pid s) \<noteq> Some LimitReached"
proof (induction n arbitrary: s)
  case 0
  then show ?case by simp
next
  case (Suc n)
  obtain o1 s1 where t: "turn e j pid s = (o1, s1)" by (cases "turn e j pid s")
  from L have nl: "\<not> limit_reached e s" by (simp add: limit_reached_def)
  from turn_step[OF nl t] t Suc.IH[of s1] show ?case by (cases o1) auto
qed

lemma run_loop_busy_unlimited:
  assumes L: "getMaxSessionTurns e < 0" and b: "requests_tools_forever e"
  shows "fst (run_loop n e j pid s) = None \<and> sends (snd (run_loop n e j pid s)) = sends s + n"
proof (induction n arbitrary: s)
  case 0
  then show ?case by simp
next
  case (Suc n)
  from L have nl: "\<not> limit_reached e s" by (simp add: limit_reached_def)
  from turn_busy[OF b nl, of j pid] obtain s1 where t: "turn e j pid s = (None, s1)" by blast
  from turn_step[OF nl t] t Suc.IH[of s1] show ?case by simp
qed

lemma run_loop_busy_limited:
  assumes L: "0 \<le> getMaxSessionTurns e" and b: "requests_tools_forever e"
    and inv: "turnCount s \<le> nat (getMaxSessionTurns e)"
    and n: "nat (getMaxSessionTurns e) - turnCount s < n"
  shows "fst (run_loop n e j pid s) = Some LimitReached"
  using inv n
proof (induction n arbitrary: s)
  case 0
  then show ?case by simp
next
  case (Suc n)
  show ?case
  proof (cases "limit_reached e s")
    case True
    then show ?thesis by (simp add: turn_limit)
  next
    case False
    from turn_busy[OF b False, of j pid] obtain s1 where t: "turn e j pid s = (None, s1)" by blast
    from False L Suc.prems(1) have lt: "turnCount s < nat (getMaxSessionTurns e)"
      by (auto simp add: limit_reached_def)
    from turn_step[OF False t] have tc: "turnCount s1 = Suc (turnCount s)" by simp
    with lt Suc.prems have "turnCount s1 \<le> nat (getMaxSessionTurns e)"
      "nat (getMaxSessionTurns e) - turnCount s1 < n" by auto
    from Suc.IH[OF this] t show ?thesis by simp
  qed
qed

lemma init_fields:
  "sends (init_session input) = 0" "turnCount (init_session input) = 0"
  "trace (init_session input) = []" "execs (init_session input) = 0" "ticks (init_session input) = 0"
  "currentMessages (init_session input) = [\<lparr>role = ''user'', parts = Some [text_part input]\<rparr>]"
  by (simp_all add: init_session_def)

section \<open>JSONL token records can be read back\<close>

lemma hex_val_hex_char: "k < 16 \<Longrightarrow> hex_val (hex_char k) = Some k"
  by (auto simp add: hex_val_def hex_char_def Let_def)

lemma parse_chars_plain:
  "c \<noteq> CHR 0x22 \<Longrightarrow> c \<noteq> CHR 0x5C \<Longrightarrow> \<not> (of_char c :: nat) < 32 \<Longrightarrow>
     parse_chars (c # rest) = cons_fst c (parse_chars rest)"
  by simp

lemma parse_chars_simple_escape:
  "unescape x = Some ch \<Longrightarrow> x \<noteq> CHR ''u'' \<Longrightarrow>
     parse_chars (CHR 0x5C # x # rest) = cons_fst ch (parse_chars rest)"
  by (simp add: parse_escape_def)

lemma parse_chars_u_escape:
  assumes "(of_char c :: nat) < 32"
  shows "parse_chars (CHR 0x5C # CHR ''u'' # CHR ''0'' # CHR ''0'' #
            hex_char ((of_char c :: nat) div 16) # hex_char ((of_char c :: nat) mod 16) # rest)
         = cons_fst c (parse_chars rest)"
proof -
  from assms have d: "(of_char c :: nat) div 16 < 16" and m: "(of_char c :: nat) mod 16 < 16" by auto
  have z: "hex_val (CHR ''0'') = Some 0" by (simp add: hex_val_def)
  have v: "((0 * 16 + 0) * 16 + (of_char c :: nat) div 16) * 16 + (of_char c :: nat) mod 16 = of_char c"
    by simp
  have "parse_escape (CHR ''u'' # CHR ''0'' # CHR ''0'' #
            hex_char ((of_char c :: nat) div 16) # hex_char ((of_char c :: nat) mod 16) # rest) = Some (c, 5)"
    using assms unfolding parse_escape_def
    by (simp add: z hex_val_hex_char[OF d] hex_val_hex_char[OF m] v del: mult_Suc_right)
  then show ?thesis by simp
qed


lemma parse_chars_escape_char:
  "parse_chars (escape_char c @ rest) = cons_fst c (parse_chars rest)"
proof -
  consider (special) "c \<in> {CHR 0x22, CHR 0x5C, CHR 0x08, CHR 0x0C, CHR 0x0A, CHR 0x0D, CHR 0x09}"
    | (control) "c \<notin> {CHR 0x22, CHR 0x5C, CHR 0x08, CHR 0x0C, CHR 0x0A, CHR 0x0D, CHR 0x09}"
        "(of_char c :: nat) < 32"
    | (plain) "c \<notin> {CHR 0x22, CHR 0x5C, CHR 0x08, CHR 0x0C, CHR 0x0A, CHR 0x0D, CHR 0x09}"
        "\<not> (of_char c :: nat) < 32"
    by blast
  then show ?thesis
  proof cases
    case special
    then show ?thesis
      by (auto simp add: escape_char_def parse_chars_simple_escape unescape_def
            simp del: parse_chars.simps)
  next
    case control
    then have "escape_char c = [CHR 0x5C, CHR ''u'', CHR ''0'', CHR ''0'',
              hex_char ((of_char c :: nat) div 16), hex_char ((of_char c :: nat) mod 16)]"
      by (simp add: escape_char_def)
    with control show ?thesis
      by (simp add: parse_chars_u_escape del: parse_chars.simps)
  next
    case plain
    then have "escape_char c = [c]" by (simp add: escape_char_def)
    with plain show ?thesis
      by (simp add: parse_chars_plain del: parse_chars.simps)
  qed
qed

lemma parse_chars_escaped:
  "parse_chars (concat (map escape_char x) @ CHR 0x22 # rest) = Some (x, rest)"
proof (induction x)
  case Nil
  show ?case by simp
next
  case (Cons c x)
  have "parse_chars (concat (map escape_char (c # x)) @ CHR 0x22 # rest)
      = parse_chars (escape_char c @ (concat (map escape_char x) @ CHR 0x22 # rest))" by simp
  also have "\<dots> = cons_fst c (parse_chars (concat (map escape_char x) @ CHR 0x22 # rest))"
    by (rule parse_chars_escape_char)
  also have "\<dots> = Some (c # x, rest)" by (simp add: Cons.IH cons_fst_def)
  finally show ?case .
qed

lemma parse_quote: "parse_chars (tl (quote x) @ rest) = Some (x, rest)"
  using parse_chars_escaped[of x rest] by (simp add: quote_def)

lemma hex_char_not_newline: "k < 16 \<Longrightarrow> hex_char k \<noteq> CHR 0x0A"
proof
  assume k: "k < 16" and "hex_char k = CHR 0x0A"
  then have "(of_char (hex_char k) :: nat) = 10" by simp
  with k show False by (auto simp add: hex_char_def split: if_splits)
qed

lemma escape_char_no_newline: "CHR 0x0A \<notin> set (escape_char c)"
proof -
  have "(of_char c :: nat) < 32 \<Longrightarrow> (of_char c :: nat) div 16 < 16 \<and> (of_char c :: nat) mod 16 < 16"
    by auto
  then show ?thesis
    using hex_char_not_newline[of "(of_char c :: nat) div 16"]
      hex_char_not_newline[of "(of_char c :: nat) mod 16"]
    by (auto simp add: escape_char_def)
qed

lemma quote_no_newline: "CHR 0x0A \<notin> set (quote x)"
  using escape_char_no_newline by (auto simp add: quote_def)


lemma skip_ws_quote: "skip_ws (quote x @ rest) = quote x @ rest"
  by (simp add: quote_def skip_ws_def is_ws_def)

lemma parse_value_string:
  "parse_value (Suc n) (quote x @ rest) = Some (JStr x, rest)"
proof -
  have "parse_value (Suc n) (quote x @ rest) =
          map_option (\<lambda>(x, r1). (JStr x, r1)) (parse_chars (tl (quote x) @ rest))"
    by (simp add: skip_ws_quote) (simp add: quote_def)
  then show ?thesis by (simp add: parse_quote)
qed

lemma parse_members_step:
  assumes "skip_ws cs = CHR 0x22 # r" "parse_chars r = Some (k, r1)" "skip_ws r1 = CHR '':'' # r2"
    "parse_value n r2 = Some (v, r3)" "skip_ws r3 = d # r4"
  shows "parse_members (Suc n) cs =
     (if d = CHR ''}'' then Some ([(k, v)], r4)
      else if d = CHR '','' then cons_fst (k, v) (parse_members n r4)
      else None)"
  using assms by simp

lemma parse_object_step:
  assumes "skip_ws cs = CHR ''{'' # r" "skip_ws r = d # r1" "d \<noteq> CHR ''}''"
  shows "parse_value (Suc n) cs = map_option (\<lambda>(kvs, r2). (JObj kvs, r2)) (parse_members n (d # r1))"
  using assms by simp

lemma skip_ws_literal:
  "skip_ws (CHR '':'' # cs) = CHR '':'' # cs"
  "skip_ws (CHR '','' # cs) = CHR '','' # cs"
  "skip_ws (CHR ''}'' # cs) = CHR ''}'' # cs"
  "skip_ws (CHR ''{'' # cs) = CHR ''{'' # cs"
  "skip_ws (CHR 0x22 # cs) = CHR 0x22 # cs"
  by (simp_all add: skip_ws_def is_ws_def)

lemma parse_members_string:
  "parse_members (Suc (Suc n)) (quote k @ CHR '':'' # quote x @ d # rest) =
     (case skip_ws (d # rest) of
        [] \<Rightarrow> None
      | d' # r4 \<Rightarrow>
          if d' = CHR ''}'' then Some ([(k, JStr x)], r4)
          else if d' = CHR '','' then cons_fst (k, JStr x) (parse_members (Suc n) r4)
          else None)"
proof (cases "skip_ws (d # rest)")
  case Nil
  have a: "skip_ws (quote k @ CHR '':'' # quote x @ d # rest)
      = CHR 0x22 # (tl (quote k) @ CHR '':'' # quote x @ d # rest)"
    using skip_ws_quote[of k "CHR '':'' # quote x @ d # rest"] by (simp add: quote_def)
  show ?thesis
    apply (subst parse_members.simps)
    apply (simp only: a list.case parse_quote option.case prod.case skip_ws_literal
        parse_value_string Nil simp_thms if_False)
    done
next
  case (Cons d' r4)
  have a: "skip_ws (quote k @ CHR '':'' # quote x @ d # rest)
      = CHR 0x22 # (tl (quote k) @ CHR '':'' # quote x @ d # rest)"
    using skip_ws_quote[of k "CHR '':'' # quote x @ d # rest"] by (simp add: quote_def)
  from parse_members_step[OF a parse_quote skip_ws_literal(1) parse_value_string Cons]
  show ?thesis by (simp add: Cons)
qed

lemma token_event_text:
  "JSON_stringify (token_event v ts) =
     CHR ''{'' # quote ''type'' @ CHR '':'' # quote ''token'' @ CHR '','' #
       quote ''data'' @ CHR '':'' # quote v @ CHR '','' #
       quote ''timestamp'' @ CHR '':'' # quote ts @ [CHR ''}'']"
  by (simp add: token_event_def)

lemma parse_token_event:
  "parse_value (Suc (Suc (Suc (Suc (Suc n))))) (JSON_stringify (token_event v ts) @ rest)
     = Some (token_event v ts, rest)"
proof -
  let ?tail = "tl (quote ''type'') @ CHR '':'' # quote ''token'' @ CHR '','' #
               quote ''data'' @ CHR '':'' # quote v @ CHR '','' #
               quote ''timestamp'' @ CHR '':'' # quote ts @ CHR ''}'' # rest"
  have m: "parse_members (Suc (Suc (Suc (Suc n))))
             (quote ''type'' @ CHR '':'' # quote ''token'' @ CHR '','' #
               quote ''data'' @ CHR '':'' # quote v @ CHR '','' #
               quote ''timestamp'' @ CHR '':'' # quote ts @ CHR ''}'' # rest)
           = Some ([(''type'', JStr ''token''), (''data'', JStr v), (''timestamp'', JStr ts)], rest)"
    by (simp add: parse_members_string cons_fst_def skip_ws_literal
          del: parse_members.simps)
  have t: "JSON_stringify (token_event v ts) @ rest = CHR ''{'' # CHR 0x22 # ?tail"
    unfolding token_event_text by (simp add: quote_def)
  have q: "CHR 0x22 # ?tail = quote ''type'' @ CHR '':'' # quote ''token'' @ CHR '','' #
               quote ''data'' @ CHR '':'' # quote v @ CHR '','' #
               quote ''timestamp'' @ CHR '':'' # quote ts @ CHR ''}'' # rest"
    by (simp add: quote_def)
  have "parse_value (Suc (Suc (Suc (Suc (Suc n))))) (CHR ''{'' # CHR 0x22 # ?tail)
      = map_option (\<lambda>(kvs, r2). (JObj kvs, r2))
          (parse_members (Suc (Suc (Suc (Suc n)))) (CHR 0x22 # ?tail))"
    by (rule parse_object_step[OF skip_ws_literal(4) skip_ws_literal(5)]) simp
  then show ?thesis
    unfolding t q m by (simp add: token_event_def)
qed


lemma token_event_text_length:
  "\<exists>m. length (JSON_stringify (token_event v ts) @ rest) = Suc (Suc (Suc (Suc (Suc m))))"
proof -
  have "5 \<le> length (JSON_stringify (token_event v ts) @ rest)"
    unfolding token_event_text by (simp add: quote_def)
  then obtain m where "length (JSON_stringify (token_event v ts) @ rest) = 5 + m"
    using le_Suc_ex by blast
  then show ?thesis by simp
qed

lemma JSON_parse_token_event:
  "JSON_parse (JSON_stringify (token_event v ts)) = Some (token_event v ts)"
  "JSON_parse (jsonl_line (token_event v ts)) = Some (token_event v ts)"
proof -
  obtain m where "length (JSON_stringify (token_event v ts) @ []) = Suc (Suc (Suc (Suc (Suc m))))"
    using token_event_text_length by blast
  then show "JSON_parse (JSON_stringify (token_event v ts)) = Some (token_event v ts)"
    using parse_token_event[of m v ts "[]"] by (simp add: JSON_parse_def skip_ws_def)
  obtain m' where "length (JSON_stringify (token_event v ts) @ [CHR 0x0A]) = Suc (Suc (Suc (Suc (Suc m'))))"
    using token_event_text_length by blast
  then show "JSON_parse (jsonl_line (token_event v ts)) = Some (token_event v ts)"
    using parse_token_event[of m' v ts "[CHR 0x0A]"]
    by (simp add: JSON_parse_def jsonl_line_def skip_ws_def is_ws_def)
qed

lemma token_event_no_newline: "CHR 0x0A \<notin> set (JSON_stringify (token_event v ts))"
  unfolding token_event_text using quote_no_newline by simp

lemma dec_nonempty: "dec n \<noteq> []"
  by (subst dec.simps) simp

lemma JSON_stringify_nonempty: "JSON_stringify v \<noteq> []"
  by (cases v) (simp_all add: dec_nonempty quote_def)

text \<open>
  Claim C9. In JSONL mode a content event with text \<open>t\<close> makes the driver write exactly one
  string to standard output, then go on with the rest of the stream: the string is a
  text without a newline followed by one newline, and the text (with or without the
  newline) parses as a JSON object whose \<^verbatim>\<open>type\<close> is \<^verbatim>\<open>"token"\<close> and whose \<^verbatim>\<open>data\<close> is \<open>t\<close>.
\<close>

theorem token_line_round_trip:
  "\<exists>body obj.
     drain e True ((False, Content t) # rest) fcs s =
       drain e True rest fcs (emit (StdoutWrite (body @ [CHR 0x0A])) (s\<lparr>ticks := Suc (ticks s)\<rparr>)) \<and>
     CHR 0x0A \<notin> set body \<and>
     JSON_parse body = Some obj \<and>
     JSON_parse (body @ [CHR 0x0A]) = Some obj \<and>
     field ''type'' obj = Some (JStr ''token'') \<and>
     field ''data'' obj = Some (JStr t)"
proof (intro exI conjI)
  let ?ts = "toISOString e (clock e (ticks s))"
  show "drain e True ((False, Content t) # rest) fcs s =
       drain e True rest fcs
         (emit (StdoutWrite (JSON_stringify (token_event t ?ts) @ [CHR 0x0A])) (s\<lparr>ticks := Suc (ticks s)\<rparr>))"
    by (simp add: drain_step jsonl_line_def del: drain.simps)
  show "CHR 0x0A \<notin> set (JSON_stringify (token_event t ?ts))"
    by (rule token_event_no_newline)
  show "JSON_parse (JSON_stringify (token_event t ?ts)) = Some (token_event t ?ts)"
    by (rule JSON_parse_token_event)
  show "JSON_parse (JSON_stringify (token_event t ?ts) @ [CHR 0x0A]) = Some (token_event t ?ts)"
    using JSON_parse_token_event(2)[of t ?ts] by (simp add: jsonl_line_def)
  show "field ''type'' (token_event t ?ts) = Some (JStr ''token'')"
    by (simp add: field_def token_event_def)
  show "field ''data'' (token_event t ?ts) = Some (JStr t)"
    by (simp add: field_def token_event_def)
qed

theorem token_line_round_trip_witness:
  "\<exists>body obj.
     stdout_writes (trace (snd (drain (busy_env 0) True [(False, Content ''abc'')] []
        (init_session ''hello'')))) = [body @ [CHR 0x0A]] \<and>
     CHR 0x0A \<notin> set body \<and>
     JSON_parse body = Some obj \<and>
     field ''type'' obj = Some (JStr ''token'') \<and>
     field ''data'' obj = Some (JStr ''abc'')"
proof -
  from token_line_round_trip[of "busy_env 0" "''abc''" "[]" "[]" "init_session ''hello''"]
  obtain body obj where
    "drain (busy_env 0) True [(False, Content ''abc'')] [] (init_session ''hello'') =
       drain (busy_env 0) True [] []
         (emit (StdoutWrite (body @ [CHR 0x0A])) ((init_session ''hello'')\<lparr>ticks := Suc (ticks (init_session ''hello''))\<rparr>))"
    "CHR 0x0A \<notin> set body" "JSON_parse body = Some obj"
    "field ''type'' obj = Some (JStr ''token'')" "field ''data'' obj = Some (JStr ''abc'')"
    by blast
  then show ?thesis
    by (intro exI[of _ body] exI[of _ obj]) (simp add: init_fields proj_single proj_append)
qed


section \<open>The end of a session: final newline and cancellation\<close>

lemma drain_jsonl_writes:
  "drain e True its fcs s = (r, s') \<Longrightarrow>
     \<exists>records. stdout_writes (trace s') = stdout_writes (trace s) @ map jsonl_line records"
proof (induction its arbitrary: fcs s)
  case Nil
  then show ?case by (intro exI[of _ "[]"]) simp
next
  case (Cons it its)
  obtain a ev where it: "it = (a, ev)" by (cases it)
  show ?case
  proof (cases a)
    case True
    with Cons.prems it show ?thesis
      by (intro exI[of _ "[]"]) (auto simp add: drain_step proj_append proj_single simp del: drain.simps)
  next
    case False
    show ?thesis
    proof (cases ev)
      case (Content v)
      let ?rec = "token_event v (toISOString e (clock e (ticks s)))"
      from Cons.prems it False Content
      have "drain e True its fcs (emit (StdoutWrite (jsonl_line ?rec)) (s\<lparr>ticks := Suc (ticks s)\<rparr>)) = (r, s')"
        by (simp add: drain_step del: drain.simps)
      from Cons.IH[OF this] obtain records where
        "stdout_writes (trace s') = stdout_writes (trace s) @ map jsonl_line (?rec # records)"
        by (auto simp add: proj_append proj_single)
      then show ?thesis by blast
    next
      case (ToolCallRequest q)
      let ?rec = "tool_call_event q (toISOString e (clock e (ticks s)))"
      from Cons.prems it False ToolCallRequest
      have "drain e True its (fcs @ [to_call q]) (emit (StdoutWrite (jsonl_line ?rec)) (s\<lparr>ticks := Suc (ticks s)\<rparr>)) = (r, s')"
        by (simp add: drain_step del: drain.simps)
      from Cons.IH[OF this] obtain records where
        "stdout_writes (trace s') = stdout_writes (trace s) @ map jsonl_line (?rec # records)"
        by (auto simp add: proj_append proj_single)
      then show ?thesis by blast
    next
      case OtherEvent
      with Cons.prems it False have "drain e True its fcs s = (r, s')"
        by (simp add: drain_step del: drain.simps)
      from Cons.IH[OF this] show ?thesis .
    qed
  qed
qed

lemma turn_completed:
  assumes nl: "\<not> limit_reached e s"
    and u: "unaborted (items (sendMessageStream e (sends s) (first_parts (currentMessages s)) pid))"
    and f: "failure (sendMessageStream e (sends s) (first_parts (currentMessages s)) pid) = None"
    and r: "requests (items (sendMessageStream e (sends s) (first_parts (currentMessages s)) pid)) = []"
  shows "\<exists>s2. drain e j (items (sendMessageStream e (sends s) (first_parts (currentMessages s)) pid)) []
                 (opened e pid s) = (Some [], s2) \<and>
              turn e j pid s = (Some Completed, emit (StdoutWrite [CHR 0x0A]) s2)"
proof -
  let ?st = "sendMessageStream e (sends s) (first_parts (currentMessages s)) pid"
  from drain_unaborted[OF u, of e j "[]" "opened e pid s"] r obtain s2 where
    d: "drain e j (items ?st) [] (opened e pid s) = (Some [], s2)" by auto
  with nl f show ?thesis by (simp add: turn_unfold)
qed

text \<open>
  Claim C10. A turn whose stream is drained without cancellation or failure and holds no
  tool-call request ends the session normally, and in both output modes the last thing
  the driver does is to write a bare newline. In JSONL mode everything else the turn wrote
  is a JSONL record line, so the bare newline ends an empty line after the last record;
  a bare newline is not the line of any record, and the empty text is not JSON.
\<close>

theorem final_newline_in_every_mode:
  assumes "\<not> limit_reached e s"
    and "unaborted (items (sendMessageStream e (sends s) (first_parts (currentMessages s)) pid))"
    and "failure (sendMessageStream e (sends s) (first_parts (currentMessages s)) pid) = None"
    and "requests (items (sendMessageStream e (sends s) (first_parts (currentMessages s)) pid)) = []"
  shows "fst (turn e j pid s) = Some Completed \<and>
         last (trace (snd (turn e j pid s))) = StdoutWrite [CHR 0x0A] \<and>
         (\<exists>records. stdout_writes (trace (snd (turn e True pid s))) =
                      stdout_writes (trace s) @ map jsonl_line records @ [[CHR 0x0A]]) \<and>
         (\<forall>v. jsonl_line v \<noteq> [CHR 0x0A]) \<and>
         JSON_parse [] = None \<and> JSON_parse [CHR 0x0A] = None"
proof (intro conjI)
  let ?st = "sendMessageStream e (sends s) (first_parts (currentMessages s)) pid"
  from turn_completed[OF assms, of j] obtain s2 where
    t: "turn e j pid s = (Some Completed, emit (StdoutWrite [CHR 0x0A]) s2)" by blast
  then show "fst (turn e j pid s) = Some Completed"
    and "last (trace (snd (turn e j pid s))) = StdoutWrite [CHR 0x0A]" by simp_all
  from turn_completed[OF assms, of True] obtain s3 where
    d: "drain e True (items ?st) [] (opened e pid s) = (Some [], s3)"
    and t3: "turn e True pid s = (Some Completed, emit (StdoutWrite [CHR 0x0A]) s3)" by blast
  from drain_jsonl_writes[OF d] obtain records where
    "stdout_writes (trace s3) = stdout_writes (trace (opened e pid s)) @ map jsonl_line records"
    by blast
  with t3 show "\<exists>records. stdout_writes (trace (snd (turn e True pid s))) =
                      stdout_writes (trace s) @ map jsonl_line records @ [[CHR 0x0A]]"
    by (auto simp add: opened_fields proj_append proj_single)
  show "\<forall>v. jsonl_line v \<noteq> [CHR 0x0A]"
    by (simp add: jsonl_line_def JSON_stringify_nonempty)
  show "JSON_parse [] = None" by (simp add: JSON_parse_def)
  show "JSON_parse [CHR 0x0A] = None" by (simp add: JSON_parse_def skip_ws_def is_ws_def)
qed

theorem final_newline_in_every_mode_witness:
  "fst (turn (scripted_env (- 1) [chat_stream] (Inl ''unused'')) True ''p1'' (init_session ''hello''))
     = Some Completed \<and>
   last (trace (snd (turn (scripted_env (- 1) [chat_stream] (Inl ''unused'')) True ''p1''
     (init_session ''hello'')))) = StdoutWrite [CHR 0x0A] \<and>
   JSON_parse [] = None"
proof -
  let ?e = "scripted_env (- 1) [chat_stream] (Inl ''unused'')"
  have st: "sendMessageStream ?e (sends (init_session ''hello''))
              (first_parts (currentMessages (init_session ''hello''))) ''p1'' = chat_stream"
    by (simp add: scripted_env_def init_fields)
  have a: "\<not> limit_reached ?e (init_session ''hello'')"
    by (simp add: limit_reached_def scripted_env_def)
  have b: "unaborted (items chat_stream)" "failure chat_stream = None" "requests (items chat_stream) = []"
    by (simp_all add: chat_stream_def unaborted_def requests_simps)
  from final_newline_in_every_mode[of ?e "init_session ''hello''" "''p1''" True, OF a]
  show ?thesis by (simp add: st b)
qed

text \<open>
  Claim C8. When the driver finds the cancellation flag set at an event, after events
  at which it was not set, the turn ends the session as cancelled: the session is the one
  reached after the earlier events plus the cancellation notice, so neither the event at
  hand nor the events after it (nor a failure of the stream) leave any trace; no tool is
  executed in the turn, even if earlier events asked for tools, and the process does not
  exit with a failure.
\<close>

theorem cancellation_ends_session:
  assumes "\<not> limit_reached e s"
    and "items (sendMessageStream e (sends s) (first_parts (currentMessages s)) pid)
           = pre @ (True, ev) # post"
    and "unaborted pre"
  shows "turn e j pid s =
           (Some Cancelled, emit (ConsoleError cancel_notice) (snd (drain e j pre [] (opened e pid s)))) \<and>
         run_loop (Suc n) e j pid s = turn e j pid s \<and>
         executed (trace (snd (turn e j pid s))) = executed (trace s) \<and>
         exits (trace (snd (turn e j pid s))) = exits (trace s)"
proof -
  obtain fcs s2 where d: "drain e j pre [] (opened e pid s) = (Some fcs, s2)"
    using drain_unaborted[OF assms(3), of e j "[]" "opened e pid s"] by auto
  have "drain e j (pre @ (True, ev) # post) [] (opened e pid s)
      = (None, emit (ConsoleError cancel_notice) s2)"
    by (simp add: drain_append d drain_step del: drain.simps)
  with assms(1,2) have t: "turn e j pid s = (Some Cancelled, emit (ConsoleError cancel_notice) s2)"
    by (simp add: turn_unfold)
  from drain_frame[OF d] have "executed (trace s2) = executed (trace s)" "exits (trace s2) = exits (trace s)"
    by (simp_all add: opened_fields proj_append proj_single)
  with t d show ?thesis by (simp add: proj_append proj_single)
qed

theorem cancellation_ends_session_witness:
  "turn (scripted_env (- 1) [cancelled_stream] (Inl ''unused'')) False ''p1'' (init_session ''hello'') =
     (Some Cancelled,
      (init_session ''hello'')
        \<lparr>turnCount := 1,
         trace := [SendMessageStream [text_part ''hello''] ''p1'' cancelled_stream,
                   StdoutWrite ''a'', ConsoleError cancel_notice],
         sends := 1\<rparr>)"
proof -
  let ?e = "scripted_env (- 1) [cancelled_stream] (Inl ''unused'')"
  have st: "items (sendMessageStream ?e (sends (init_session ''hello''))
              (first_parts (currentMessages (init_session ''hello''))) ''p1'') =
            [(False, Content ''a''),
             (False, ToolCallRequest (ToolCallRequestValue ''ls'' None (Some ''call-1'')))]
            @ (True, Content ''b'') # [(False, Content ''c'')]"
    by (simp add: scripted_env_def init_fields cancelled_stream_def)
  have a: "\<not> limit_reached ?e (init_session ''hello'')"
    by (simp add: limit_reached_def scripted_env_def)
  have u: "unaborted [(False, Content ''a''),
             (False, ToolCallRequest (ToolCallRequestValue ''ls'' None (Some ''call-1'')))]"
    by (simp add: unaborted_def)
  from cancellation_ends_session[OF a st u, of False 0]
  have "turn ?e False ''p1'' (init_session ''hello'') =
      (Some Cancelled, emit (ConsoleError cancel_notice)
         (snd (drain ?e False [(False, Content ''a''),
             (False, ToolCallRequest (ToolCallRequestValue ''ls'' None (Some ''call-1'')))] []
             (opened ?e ''p1'' (init_session ''hello'')))))"
    by (rule conjunct1)
  also have "opened ?e ''p1'' (init_session ''hello'') =
      (init_session ''hello'')
        \<lparr>turnCount := 1, trace := [SendMessageStream [text_part ''hello''] ''p1'' cancelled_stream],
         sends := 1\<rparr>"
    by (simp add: opened_def init_session_def emit_def first_parts_def scripted_env_def)
  finally show ?thesis
    by (simp add: emit_def init_session_def)
qed


section \<open>What is sent to the agent, and the plain output\<close>

text \<open>
  Claim C6. A turn that passes the turn limit calls the agent client exactly once, with
  the parts of the first message of the batch: the empty list when the batch is empty or
  the first message has no parts, and never anything of a later message. A turn stopped by
  the limit calls the client not at all.
\<close>

theorem only_first_message_is_sent:
  "first_parts [] = [] \<and>
   first_parts (m # later) = (case parts m of None \<Rightarrow> [] | Some ps \<Rightarrow> ps) \<and>
   sent (trace (snd (turn e j pid s))) =
     sent (trace s) @
       (if limit_reached e s then []
        else [(first_parts (currentMessages s), pid,
               sendMessageStream e (sends s) (first_parts (currentMessages s)) pid)])"
proof (intro conjI)
  show "first_parts [] = []" by (simp add: first_parts_def)
  show "first_parts (m # later) = (case parts m of None \<Rightarrow> [] | Some ps \<Rightarrow> ps)"
    by (simp add: first_parts_def)
  show "sent (trace (snd (turn e j pid s))) =
     sent (trace s) @
       (if limit_reached e s then []
        else [(first_parts (currentMessages s), pid,
               sendMessageStream e (sends s) (first_parts (currentMessages s)) pid)])"
  proof (cases "limit_reached e s")
    case True
    then show ?thesis by (simp add: turn_limit proj_append proj_single)
  next
    case False
    obtain out s' where t: "turn e j pid s = (out, s')" by (cases "turn e j pid s")
    from turn_step[OF False t] t False show ?thesis by simp
  qed
qed

theorem only_first_message_is_sent_witness:
  "sent (trace (snd (turn (scripted_env (- 1) [chat_stream] (Inl ''unused'')) False ''p1'' two_messages)))
     = [([text_part ''one''], ''p1'', chat_stream)]"
  using only_first_message_is_sent[of "\<lparr>role = ''user'', parts = Some [text_part ''one'']\<rparr>"
      "[\<lparr>role = ''user'', parts = Some [text_part ''two'']\<rparr>]"
      "scripted_env (- 1) [chat_stream] (Inl ''unused'')" False "''p1''" two_messages]
  by (simp add: two_messages_def init_session_def limit_reached_def scripted_env_def proj_single)

lemma received_append: "received (a @ b) = received a @ received b"
  by (simp add: received_def sent_append)

lemma turn_received:
  assumes nl: "\<not> limit_reached e s" and t: "turn e j pid s = (out, s')"
  shows "received (trace s') = received (trace s) @
           fragments (items (sendMessageStream e (sends s) (first_parts (currentMessages s)) pid))"
  using turn_step[OF nl t] by (simp add: received_def)

lemma turn_plain:
  assumes nl: "\<not> limit_reached e s" and t: "turn e False pid s = (out, s')"
    and o: "out = None \<or> out = Some Completed"
  shows "stdout_writes (trace s') = stdout_writes (trace s) @
           fragments (items (sendMessageStream e (sends s) (first_parts (currentMessages s)) pid)) @
           (if out = Some Completed then [[CHR 0x0A]] else [])"
proof -
  let ?st = "sendMessageStream e (sends s) (first_parts (currentMessages s)) pid"
  obtain d s2 where d: "drain e False (items ?st) [] (opened e pid s) = (d, s2)"
    by (cases "drain e False (items ?st) [] (opened e pid s)")
  from t nl d o obtain fcs where fcs: "d = Some fcs"
    by (cases d) (auto simp add: turn_unfold)
  from drain_Some_unaborted[OF d[unfolded fcs]] have u: "unaborted (items ?st)" .
  from drain_unaborted[OF u, of e False "[]" "opened e pid s"] d
  have w: "stdout_writes (trace s2) = stdout_writes (trace s) @ fragments (items ?st)"
    by (auto simp add: opened_fields proj_append proj_single)
  show ?thesis
  proof (cases "failure ?st")
    case (Some err)
    with t nl d fcs o show ?thesis by (auto simp add: turn_unfold fail_def)
  next
    case None
    show ?thesis
    proof (cases "fcs = []")
      case True
      with t nl d fcs None w show ?thesis
        by (auto simp add: turn_unfold proj_append proj_single)
    next
      case False
      obtain r3 s3 where x: "exec_tools e False pid fcs [] s2 = (r3, s3)"
        by (cases "exec_tools e False pid fcs [] s2")
      from exec_tools_frame[OF x] have "stdout_writes (trace s3) = stdout_writes (trace s2)" by simp
      with t nl d fcs None w False x o show ?thesis
        by (cases r3) (auto simp add: turn_unfold fail_def)
    qed
  qed
qed

lemma run_loop_plain:
  assumes "stdout_writes (trace s) = received (trace s)"
    and "run_loop n e False pid s = (Some Completed, s')"
  shows "stdout_writes (trace s') = received (trace s') @ [[CHR 0x0A]]"
  using assms
proof (induction n arbitrary: s)
  case 0
  then show ?case by simp
next
  case (Suc n)
  obtain o1 s1 where t: "turn e False pid s = (o1, s1)" by (cases "turn e False pid s")
  show ?case
  proof (cases "limit_reached e s")
    case True
    with t Suc.prems show ?thesis by (auto simp add: turn_limit)
  next
    case False
    note rc = turn_received[OF False t]
    show ?thesis
    proof (cases o1)
      case None
      with t Suc.prems have run: "run_loop n e False pid s1 = (Some Completed, s')" by simp
      from turn_plain[OF False t] None rc Suc.prems(1)
      have "stdout_writes (trace s1) = received (trace s1)" by simp
      from Suc.IH[OF this run] show ?thesis .
    next
      case (Some x)
      with t Suc.prems have "x = Completed" "s1 = s'" by simp_all
      with turn_plain[OF False t] Some rc Suc.prems(1) show ?thesis by simp
    qed
  qed
qed

lemma trailing_newlines_snoc:
  "trailing_newlines (text @ [CHR 0x0A]) = Suc (trailing_newlines text)"
  by (simp add: trailing_newlines_def)

lemma drain_plain_prefix:
  "drain e False its fcs s = (r, s') \<Longrightarrow>
     \<exists>k. stdout_writes (trace s') = stdout_writes (trace s) @ take k (fragments its)"
proof (induction its arbitrary: fcs s)
  case Nil
  then show ?case by simp
next
  case (Cons it its)
  obtain a ev where it: "it = (a, ev)" by (cases it)
  show ?case
  proof (cases a)
    case True
    with Cons.prems it show ?thesis
      by (intro exI[of _ 0]) (auto simp add: drain_step proj_append proj_single simp del: drain.simps)
  next
    case False
    show ?thesis
    proof (cases ev)
      case (Content v)
      from Cons.prems it False Content have "drain e False its fcs (emit (StdoutWrite v) s) = (r, s')"
        by (simp add: drain_step del: drain.simps)
      from Cons.IH[OF this] obtain k where
        "stdout_writes (trace s') = stdout_writes (trace s) @ take (Suc k) (v # fragments its)"
        by (auto simp add: proj_append proj_single)
      with it Content show ?thesis by (auto simp add: requests_simps simp del: take_Suc_Cons)
    next
      case (ToolCallRequest q)
      from Cons.prems it False ToolCallRequest have "drain e False its (fcs @ [to_call q]) s = (r, s')"
        by (simp add: drain_step del: drain.simps)
      from Cons.IH[OF this] it ToolCallRequest show ?thesis by (simp add: requests_simps)
    next
      case OtherEvent
      with Cons.prems it False have "drain e False its fcs s = (r, s')"
        by (simp add: drain_step del: drain.simps)
      from Cons.IH[OF this] it OtherEvent show ?thesis by (simp add: requests_simps)
    qed
  qed
qed

lemma turn_plain_prefix:
  assumes nl: "\<not> limit_reached e s" and t: "turn e False pid s = (out, s')"
  shows "\<exists>k. stdout_writes (trace s') = stdout_writes (trace s) @
           take k (fragments (items (sendMessageStream e (sends s) (first_parts (currentMessages s)) pid))) @
           (if out = Some Completed then [[CHR 0x0A]] else [])"
proof -
  let ?st = "sendMessageStream e (sends s) (first_parts (currentMessages s)) pid"
  obtain d s2 where d: "drain e False (items ?st) [] (opened e pid s) = (d, s2)"
    by (cases "drain e False (items ?st) [] (opened e pid s)")
  from drain_plain_prefix[OF d] obtain k where
    w: "stdout_writes (trace s2) = stdout_writes (trace s) @ take k (fragments (items ?st))"
    by (auto simp add: opened_fields proj_append proj_single)
  show ?thesis
  proof (cases "out = None \<or> out = Some Completed")
    case True
    from turn_plain[OF nl t True] show ?thesis
      by (intro exI[of _ "length (fragments (items ?st))"]) simp
  next
    case False
    show ?thesis
    proof (cases d)
      case None
      with t nl d w show ?thesis by (auto simp add: turn_unfold proj_append proj_single)
    next
      case (Some fcs)
      show ?thesis
      proof (cases "failure ?st")
        case (Some err)
        with t nl d w \<open>d = Some fcs\<close> show ?thesis
          by (auto simp add: turn_unfold fail_def proj_append proj_single)
      next
        case None
        obtain r3 s3 where x: "exec_tools e False pid fcs [] s2 = (r3, s3)"
          by (cases "exec_tools e False pid fcs [] s2")
        from exec_tools_frame[OF x] have "stdout_writes (trace s3) = stdout_writes (trace s2)" by simp
        then have w3: "stdout_writes (trace s3) = stdout_writes (trace s) @ take k (fragments (items ?st))"
          using w by simp
        from t nl d None \<open>d = Some fcs\<close> False have ne: "fcs \<noteq> []"
          by (auto simp add: turn_unfold split: if_splits)
        from t nl d None \<open>d = Some fcs\<close> x ne
        have tt: "(out, s') = (case r3 of Inl err \<Rightarrow> fail err s3
              | Inr toolParts \<Rightarrow> (None, s3\<lparr>currentMessages := [\<lparr>role = ''user'', parts = Some toolParts\<rparr>]\<rparr>))"
          by (simp add: turn_unfold split: sum.splits)
        show ?thesis
        proof (cases r3)
          case (Inl err)
          with tt have "out = Some Failed" "stdout_writes (trace s') = stdout_writes (trace s3)"
            by (simp_all add: fail_def proj_append proj_single)
          with w3 show ?thesis by auto
        next
          case (Inr ps)
          with tt False show ?thesis by simp
        qed
      qed
    qed
  qed
qed

lemma run_loop_plain_prefix:
  assumes "stdout_writes (trace s) = received (trace s)"
  shows "\<exists>k. stdout_writes (trace (snd (run_loop n e False pid s))) =
           take k (received (trace (snd (run_loop n e False pid s)))) @
           (if fst (run_loop n e False pid s) = Some Completed then [[CHR 0x0A]] else [])"
  using assms
proof (induction n arbitrary: s)
  case 0
  then show ?case by (intro exI[of _ "length (received (trace s))"]) simp
next
  case (Suc n)
  obtain o1 s1 where t: "turn e False pid s = (o1, s1)" by (cases "turn e False pid s")
  show ?case
  proof (cases "limit_reached e s")
    case True
    with Suc.prems show ?thesis
      by (intro exI[of _ "length (received (trace s))"])
         (simp add: turn_limit received_append proj_append proj_single received_def)
  next
    case False
    note rc = turn_received[OF False t]
    show ?thesis
    proof (cases o1)
      case None
      from turn_plain[OF False t] None rc Suc.prems
      have "stdout_writes (trace s1) = received (trace s1)" by simp
      from Suc.IH[OF this] t None show ?thesis by simp
    next
      case (Some x)
      from turn_plain_prefix[OF False t] obtain k where
        "stdout_writes (trace s1) = stdout_writes (trace s) @
           take k (fragments (items (sendMessageStream e (sends s) (first_parts (currentMessages s)) pid))) @
           (if o1 = Some Completed then [[CHR 0x0A]] else [])" by blast
      with rc Suc.prems t Some show ?thesis
        by (intro exI[of _ "length (received (trace s)) + k"]) simp
    qed
  qed
qed

lemma plain_completed_output:
  assumes "runNonInteractive n e input pid False = (Some Completed, s')"
  shows "stdout_writes (trace s') = received (trace s') @ [[CHR 0x0A]]"
proof -
  from assms have "run_loop n e False pid (init_session input) = (Some Completed, s')"
    by (simp add: runNonInteractive_def)
  from run_loop_plain[OF _ this] show ?thesis
    by (simp add: init_fields received_def proj_single)
qed

text \<open>
  Claim C2, as the code has it. In plain mode the driver writes to standard output, at any
  moment, nothing but text fragments it received, each exactly as received and in the order
  received (after a cancellation, the fragments that came before it), and one newline more
  when the session has ended normally. A session that ends normally has written all the
  fragments it received and after them that one newline: the output has one trailing
  newline more than the streamed text has.
\<close>

theorem plain_output_gets_one_more_newline:
  "(\<exists>k. stdout_writes (trace (snd (runNonInteractive n e input pid False))) =
         take k (received (trace (snd (runNonInteractive n e input pid False)))) @
         (if fst (runNonInteractive n e input pid False) = Some Completed then [[CHR 0x0A]] else [])) \<and>
   (runNonInteractive n e input pid False = (Some Completed, s') \<longrightarrow>
      stdout_writes (trace s') = received (trace s') @ [[CHR 0x0A]] \<and>
      trailing_newlines (concat (stdout_writes (trace s'))) =
        Suc (trailing_newlines (concat (received (trace s')))))"
proof (intro conjI impI)
  show "\<exists>k. stdout_writes (trace (snd (runNonInteractive n e input pid False))) =
         take k (received (trace (snd (runNonInteractive n e input pid False)))) @
         (if fst (runNonInteractive n e input pid False) = Some Completed then [[CHR 0x0A]] else [])"
    unfolding runNonInteractive_def
    by (rule run_loop_plain_prefix) (simp add: init_fields received_def proj_single)
next
  assume r: "runNonInteractive n e input pid False = (Some Completed, s')"
  from plain_completed_output[OF r]
  show "stdout_writes (trace s') = received (trace s') @ [[CHR 0x0A]]" .
  then show "trailing_newlines (concat (stdout_writes (trace s'))) =
        Suc (trailing_newlines (concat (received (trace s'))))"
    by (simp add: trailing_newlines_snoc)
qed

lemma chat_run:
  "runNonInteractive (Suc 0) (scripted_env (- 1) [chat_stream] (Inl ''unused'')) ''hello'' ''p1'' False =
     (Some Completed,
      \<lparr>currentMessages = [\<lparr>role = ''user'', parts = Some [text_part ''hello'']\<rparr>],
       turnCount = 1,
       trace = [SendMessageStream [text_part ''hello''] ''p1'' chat_stream,
                StdoutWrite ''Hello'', StdoutWrite [CHR ''!'', CHR 0x0A], StdoutWrite [CHR 0x0A]],
       ticks = 0, sends = 1, execs = 0\<rparr>)"
  by (simp add: runNonInteractive_def init_session_def turn_def scripted_env_def chat_stream_def
        first_parts_def emit_def Let_def)

text \<open>
  Claim C2 as stated fails: when the streamed text itself ends with a newline, the output
  ends with two.
\<close>

theorem plain_output_two_newlines_counterexample:
  "fst (runNonInteractive 1 (scripted_env (- 1) [chat_stream] (Inl ''unused'')) ''hello'' ''p1'' False)
     = Some Completed \<and>
   concat (stdout_writes (trace (snd
     (runNonInteractive 1 (scripted_env (- 1) [chat_stream] (Inl ''unused'')) ''hello'' ''p1'' False))))
     = ''Hello!'' @ [CHR 0x0A, CHR 0x0A] \<and>
   trailing_newlines (concat (stdout_writes (trace (snd
     (runNonInteractive 1 (scripted_env (- 1) [chat_stream] (Inl ''unused'')) ''hello'' ''p1'' False)))))
     = 2"
  by (simp add: chat_run proj_single trailing_newlines_def)

theorem plain_output_gets_one_more_newline_witness:
  "stdout_writes (trace (snd
     (runNonInteractive 1 (scripted_env (- 1) [chat_stream] (Inl ''unused'')) ''hello'' ''p1'' False)))
     = [''Hello'', [CHR ''!'', CHR 0x0A], [CHR 0x0A]] \<and>
   trailing_newlines (concat (stdout_writes (trace (snd
     (runNonInteractive 1 (scripted_env (- 1) [chat_stream] (Inl ''unused'')) ''hello'' ''p1'' False)))))
     = Suc (trailing_newlines [CHR ''H'', CHR ''e'', CHR ''l'', CHR ''l'', CHR ''o'', CHR ''!'', CHR 0x0A])"
proof -
  note r = plain_output_gets_one_more_newline[where n = "Suc 0"
      and e = "scripted_env (- 1) [chat_stream] (Inl ''unused'')" and input = "''hello''"
      and pid = "''p1''"
      and s' = "snd (runNonInteractive (Suc 0) (scripted_env (- 1) [chat_stream] (Inl ''unused''))
                  ''hello'' ''p1'' False)", THEN conjunct2, unfolded chat_run snd_conv, simplified]
  have "received [SendMessageStream [text_part ''hello''] ''p1'' chat_stream,
                StdoutWrite ''Hello'', StdoutWrite [CHR ''!'', CHR 0x0A], StdoutWrite [CHR 0x0A]]
        = [''Hello'', [CHR ''!'', CHR 0x0A]]"
    by (simp add: received_def proj_single chat_stream_def fragments_def)
  with r show ?thesis by (simp add: chat_run proj_single)
qed


section \<open>The tool phase of a turn\<close>

lemma tool_phase_simps:
  "tool_phase j pid [] xs = []"
  "tool_phase j pid fcs [] = []"
  "tool_phase j pid (fc # fcs) ((cid, r, ts) # xs) = call_effects j pid fc cid r ts @ tool_phase j pid fcs xs"
  by (simp_all add: tool_phase_def)

lemma resolved_id_ok: "id_of_call fc (resolved_id e fc s)"
  by (auto simp add: id_of_call_def resolved_id_def split: option.splits)

lemma exec_tools_trace:
  "exec_tools e j pid fcs acc s = (Inr ps, s') \<Longrightarrow>
     \<exists>xs. length xs = length fcs \<and>
          trace s' = trace s @ tool_phase j pid fcs xs \<and>
          ps = acc @ concat (map (\<lambda>(cid, r, ts). pushed_parts (responseParts r)) xs) \<and>
          list_all2 (\<lambda>fc x. id_of_call fc (fst x)) fcs xs"
proof (induction fcs arbitrary: acc s)
  case Nil
  then show ?case by (intro exI[of _ "[]"]) (simp add: tool_phase_simps)
next
  case (Cons fc fcs)
  show ?case
  proof (cases "executeToolCall e (execs s) (requestInfo (resolved_id e fc s) fc pid)")
    case (Inl err)
    from exec_tool_Inl[OF this, of j acc] Cons.prems show ?thesis by auto
  next
    case (Inr r)
    from exec_tool_Inr[OF this, of j acc] obtain s1 ts where
      step: "exec_tool e j pid fc acc s = (Inr (acc @ pushed_parts (responseParts r)), s1)"
      and tr: "trace s1 = trace s @ call_effects j pid fc (resolved_id e fc s) r ts" by blast
    with Cons.prems have "exec_tools e j pid fcs (acc @ pushed_parts (responseParts r)) s1 = (Inr ps, s')"
      by simp
    from Cons.IH[OF this] obtain xs where xs: "length xs = length fcs"
      "trace s' = trace s1 @ tool_phase j pid fcs xs"
      "ps = (acc @ pushed_parts (responseParts r)) @
              concat (map (\<lambda>(cid, r, ts). pushed_parts (responseParts r)) xs)"
      "list_all2 (\<lambda>fc x. id_of_call fc (fst x)) fcs xs" by blast
    show ?thesis
      using xs
      by (intro exI[of _ "(resolved_id e fc s, r, ts) # xs"])
         (simp add: tr tool_phase_simps resolved_id_ok)
  qed
qed

lemma call_effects_proj:
  "executed (call_effects j pid fc cid r ts) = [(requestInfo cid fc pid, Inr r)]"
  "stdout_writes (call_effects j pid fc cid r ts) =
     (if j then [jsonl_line (tool_result_event cid (fc_name fc) r ts)] else [])"
  "console_errors (call_effects j pid fc cid r ts) =
     (case error r of Some m \<Rightarrow> [tool_error_notice (fc_name fc) r m] | None \<Rightarrow> [])"
  "exits (call_effects j pid fc cid r ts) = []"
  "sent (call_effects j pid fc cid r ts) = []"
  by (simp_all add: call_effects_def proj_append proj_single split: option.splits)

lemma tool_phase_proj:
  "length xs = length fcs \<Longrightarrow>
     executed (tool_phase j pid fcs xs) =
       map (\<lambda>(fc, cid, r, ts). (requestInfo cid fc pid, Inr r)) (zip fcs xs) \<and>
     stdout_writes (tool_phase j pid fcs xs) =
       (if j then map (\<lambda>(fc, cid, r, ts). jsonl_line (tool_result_event cid (fc_name fc) r ts)) (zip fcs xs)
        else [])"
proof (induction fcs xs rule: list_induct2')
  case (4 fc fcs x xs)
  obtain cid r ts where x: "x = (cid, r, ts)" by (cases x)
  from 4 show ?case by (simp add: x tool_phase_simps proj_append call_effects_proj)
qed (simp_all add: tool_phase_simps proj_single)


lemma tool_phase_log:
  "executed (tool_phase j pid fcs xs) =
     map (\<lambda>(fc, cid, r, ts). (requestInfo cid fc pid, Inr r)) (zip fcs xs) \<and>
   stdout_writes (tool_phase j pid fcs xs) =
     (if j then map (\<lambda>(fc, cid, r, ts). jsonl_line (tool_result_event cid (fc_name fc) r ts)) (zip fcs xs)
      else []) \<and>
   exits (tool_phase j pid fcs xs) = []"
proof (induction fcs xs rule: list_induct2')
  case (4 fc fcs x xs)
  obtain cid r ts where x: "x = (cid, r, ts)" by (cases x)
  from 4 show ?case by (simp add: x tool_phase_simps proj_append call_effects_proj)
qed (simp_all add: tool_phase_simps proj_single)

lemma tool_phase_log_names:
  "map (\<lambda>x. name (fst x)) (executed (tool_phase j pid fcs xs)) = map fc_name (take (length xs) fcs)"
proof (induction fcs xs rule: list_induct2')
  case (4 fc fcs x xs)
  obtain cid r ts where x: "x = (cid, r, ts)" by (cases x)
  from 4 show ?case
    by (simp add: x tool_phase_simps proj_append call_effects_proj requestInfo_def)
qed (simp_all add: tool_phase_simps proj_single)

lemma exec_tool_returns:
  assumes "executeToolCall e (execs s) (requestInfo (resolved_id e fc s) fc pid) = Inr r"
  shows "\<exists>s' k. exec_tool e j pid fc acc s = (Inr (acc @ pushed_parts (responseParts r)), s') \<and>
           trace s' = trace s @ call_effects j pid fc (resolved_id e fc s) r (toISOString e (clock e k)) \<and>
           execs s' = Suc (execs s)"
  using assms
  by (cases "fc_id fc"; cases "error r"; cases j)
     (auto simp add: exec_tool_def resolve_callId_def resolved_id_def dateNow_eq isoNow_eq Let_def
        call_effects_def)

lemma exec_tools_log:
  "exec_tools e j pid fcs acc s = (res, s') \<Longrightarrow>
     \<exists>xs. length xs \<le> length fcs \<and>
       (\<forall>i < length xs.
          executeToolCall e (execs s + i) (requestInfo (fst (xs ! i)) (fcs ! i) pid) = Inr (fst (snd (xs ! i))) \<and>
          id_of_call (fcs ! i) (fst (xs ! i)) \<and>
          (\<exists>k. snd (snd (xs ! i)) = toISOString e (clock e k))) \<and>
       (case res of
          Inr ps \<Rightarrow> length xs = length fcs \<and> trace s' = trace s @ tool_phase j pid fcs xs
        | Inl err \<Rightarrow>
            length xs < length fcs \<and>
            (\<exists>cid. id_of_call (fcs ! length xs) cid \<and>
               executeToolCall e (execs s + length xs) (requestInfo cid (fcs ! length xs) pid) = Inl err \<and>
               trace s' = trace s @ tool_phase j pid fcs xs @
                 [ExecuteToolCall (requestInfo cid (fcs ! length xs) pid) (Inl err)]))"
proof (induction fcs arbitrary: acc s)
  case Nil
  then show ?case by (intro exI[of _ "[]"]) (auto simp add: tool_phase_simps)
next
  case (Cons fc fcs)
  show ?case
  proof (cases "executeToolCall e (execs s) (requestInfo (resolved_id e fc s) fc pid)")
    case (Inl err)
    from exec_tool_Inl[OF this, of j acc] Cons.prems obtain
      r: "res = Inl err" and
      tr: "trace s' = trace s @ [ExecuteToolCall (requestInfo (resolved_id e fc s) fc pid) (Inl err)]"
      by auto
    show ?thesis
      apply (rule exI[of _ "[]"])
      apply (simp add: r tool_phase_simps)
      apply (rule exI[of _ "resolved_id e fc s"])
      apply (simp add: tr Inl resolved_id_ok)
      done
  next
    case (Inr r)
    from exec_tool_returns[OF this, of j acc] obtain s1 k where
      step: "exec_tool e j pid fc acc s = (Inr (acc @ pushed_parts (responseParts r)), s1)"
      and tr: "trace s1 = trace s @ call_effects j pid fc (resolved_id e fc s) r (toISOString e (clock e k))"
      and ex: "execs s1 = Suc (execs s)" by blast
    with Cons.prems have run: "exec_tools e j pid fcs (acc @ pushed_parts (responseParts r)) s1 = (res, s')"
      by simp
    from Cons.IH[OF run] obtain xs where len: "length xs \<le> length fcs"
      and ans: "\<forall>i < length xs.
          executeToolCall e (execs s1 + i) (requestInfo (fst (xs ! i)) (fcs ! i) pid) = Inr (fst (snd (xs ! i))) \<and>
          id_of_call (fcs ! i) (fst (xs ! i)) \<and>
          (\<exists>k. snd (snd (xs ! i)) = toISOString e (clock e k))"
      and rest: "case res of
          Inr ps \<Rightarrow> length xs = length fcs \<and> trace s' = trace s1 @ tool_phase j pid fcs xs
        | Inl err \<Rightarrow>
            length xs < length fcs \<and>
            (\<exists>cid. id_of_call (fcs ! length xs) cid \<and>
               executeToolCall e (execs s1 + length xs) (requestInfo cid (fcs ! length xs) pid) = Inl err \<and>
               trace s' = trace s1 @ tool_phase j pid fcs xs @
                 [ExecuteToolCall (requestInfo cid (fcs ! length xs) pid) (Inl err)])"
      by blast
    let ?xs = "(resolved_id e fc s, r, toISOString e (clock e k)) # xs"
    have a: "\<forall>i < length ?xs.
          executeToolCall e (execs s + i) (requestInfo (fst (?xs ! i)) ((fc # fcs) ! i) pid) = Inr (fst (snd (?xs ! i))) \<and>
          id_of_call ((fc # fcs) ! i) (fst (?xs ! i)) \<and>
          (\<exists>k. snd (snd (?xs ! i)) = toISOString e (clock e k))"
    proof (intro allI impI)
      fix i assume i: "i < length ?xs"
      show "executeToolCall e (execs s + i) (requestInfo (fst (?xs ! i)) ((fc # fcs) ! i) pid) = Inr (fst (snd (?xs ! i))) \<and>
          id_of_call ((fc # fcs) ! i) (fst (?xs ! i)) \<and>
          (\<exists>k. snd (snd (?xs ! i)) = toISOString e (clock e k))"
      proof (cases i)
        case 0
        with Inr show ?thesis by (auto simp add: resolved_id_ok)
      next
        case (Suc i')
        with i ans ex show ?thesis by simp
      qed
    qed
    have b: "case res of
          Inr ps \<Rightarrow> length ?xs = length (fc # fcs) \<and> trace s' = trace s @ tool_phase j pid (fc # fcs) ?xs
        | Inl err \<Rightarrow>
            length ?xs < length (fc # fcs) \<and>
            (\<exists>cid. id_of_call ((fc # fcs) ! length ?xs) cid \<and>
               executeToolCall e (execs s + length ?xs) (requestInfo cid ((fc # fcs) ! length ?xs) pid) = Inl err \<and>
               trace s' = trace s @ tool_phase j pid (fc # fcs) ?xs @
                 [ExecuteToolCall (requestInfo cid ((fc # fcs) ! length ?xs) pid) (Inl err)])"
      using rest by (cases res) (auto simp add: tr ex tool_phase_simps)
    from len a b show ?thesis by (intro exI[of _ ?xs]) simp
  qed
qed

lemma drain_jsonl_records:
  "drain e True its fcs s = (r, s') \<Longrightarrow>
     \<exists>records. stdout_writes (trace s') = stdout_writes (trace s) @ map jsonl_line records \<and>
       list_all (\<lambda>x. field ''type'' x = Some (JStr ''token'') \<or>
                      field ''type'' x = Some (JStr ''tool_call'')) records"
proof (induction its arbitrary: fcs s)
  case Nil
  then show ?case by (intro exI[of _ "[]"]) simp
next
  case (Cons it its)
  obtain a ev where it: "it = (a, ev)" by (cases it)
  show ?case
  proof (cases a)
    case True
    with Cons.prems it show ?thesis
      by (intro exI[of _ "[]"]) (auto simp add: drain_step proj_append proj_single simp del: drain.simps)
  next
    case False
    show ?thesis
    proof (cases ev)
      case (Content v)
      let ?rec = "token_event v (toISOString e (clock e (ticks s)))"
      have ty: "field ''type'' ?rec = Some (JStr ''token'')" by (simp add: field_def token_event_def)
      from Cons.prems it False Content
      have "drain e True its fcs (emit (StdoutWrite (jsonl_line ?rec)) (s\<lparr>ticks := Suc (ticks s)\<rparr>)) = (r, s')"
        by (simp add: drain_step del: drain.simps)
      from Cons.IH[OF this] obtain records where
        "stdout_writes (trace s') = stdout_writes (trace s) @ map jsonl_line (?rec # records)"
        "list_all (\<lambda>x. field ''type'' x = Some (JStr ''token'') \<or>
                      field ''type'' x = Some (JStr ''tool_call'')) records"
        by (auto simp add: proj_append proj_single)
      with ty show ?thesis by (intro exI[of _ "?rec # records"]) simp
    next
      case (ToolCallRequest q)
      let ?rec = "tool_call_event q (toISOString e (clock e (ticks s)))"
      have ty: "field ''type'' ?rec = Some (JStr ''tool_call'')"
        by (simp add: field_def tool_call_event_def)
      from Cons.prems it False ToolCallRequest
      have "drain e True its (fcs @ [to_call q]) (emit (StdoutWrite (jsonl_line ?rec)) (s\<lparr>ticks := Suc (ticks s)\<rparr>)) = (r, s')"
        by (simp add: drain_step del: drain.simps)
      from Cons.IH[OF this] obtain records where
        "stdout_writes (trace s') = stdout_writes (trace s) @ map jsonl_line (?rec # records)"
        "list_all (\<lambda>x. field ''type'' x = Some (JStr ''token'') \<or>
                      field ''type'' x = Some (JStr ''tool_call'')) records"
        by (auto simp add: proj_append proj_single)
      with ty show ?thesis by (intro exI[of _ "?rec # records"]) simp
    next
      case OtherEvent
      with Cons.prems it False have "drain e True its fcs s = (r, s')"
        by (simp add: drain_step del: drain.simps)
      from Cons.IH[OF this] show ?thesis .
    qed
  qed
qed


lemma tool_result_type:
  "field ''type'' (tool_result_event cid nm r ts) = Some (JStr ''tool_result'')"
  by (simp add: field_def tool_result_event_def)

lemma tool_phase_writes:
  "stdout_writes (tool_phase True pid fcs xs) = map jsonl_line (result_records fcs xs)"
  by (simp add: tool_phase_log result_records_def comp_def case_prod_beta)

lemma turn_without_tools:
  assumes c: "limit_reached e s \<or> \<not> unaborted (items (turn_stream e pid s)) \<or>
              failure (turn_stream e pid s) \<noteq> None"
  shows "executed (trace (snd (turn e j pid s))) = executed (trace s) \<and>
         (fst (turn e j pid s) = Some LimitReached \<or> fst (turn e j pid s) = Some Cancelled \<or>
          fst (turn e j pid s) = Some Failed) \<and>
         (j \<longrightarrow> (\<exists>records.
            stdout_writes (trace (snd (turn e j pid s))) = stdout_writes (trace s) @ map jsonl_line records \<and>
            list_all (\<lambda>x. field ''type'' x = Some (JStr ''token'') \<or>
                           field ''type'' x = Some (JStr ''tool_call'')) records))"
proof (cases "limit_reached e s")
  case True
  have "map jsonl_line [] = ([] :: string list)" by simp
  then show ?thesis
    using True by (auto simp add: turn_limit proj_append proj_single intro!: exI[of _ "[]"])
next
  case False
  let ?st = "sendMessageStream e (sends s) (first_parts (currentMessages s)) pid"
  obtain d s2 where d: "drain e j (items ?st) [] (opened e pid s) = (d, s2)"
    by (cases "drain e j (items ?st) [] (opened e pid s)")
  from drain_frame[OF d] have ex: "executed (trace s2) = executed (trace s)"
    by (simp add: opened_fields proj_append proj_single)
  have rec: "j \<longrightarrow> (\<exists>records.
            stdout_writes (trace s2) = stdout_writes (trace s) @ map jsonl_line records \<and>
            list_all (\<lambda>x. field ''type'' x = Some (JStr ''token'') \<or>
                           field ''type'' x = Some (JStr ''tool_call'')) records)"
  proof
    assume j
    with d have "drain e True (items ?st) [] (opened e pid s) = (d, s2)" by simp
    from drain_jsonl_records[OF this] show "\<exists>records.
            stdout_writes (trace s2) = stdout_writes (trace s) @ map jsonl_line records \<and>
            list_all (\<lambda>x. field ''type'' x = Some (JStr ''token'') \<or>
                           field ''type'' x = Some (JStr ''tool_call'')) records"
      by (simp add: opened_fields proj_append proj_single)
  qed
  show ?thesis
  proof (cases d)
    case None
    with False d have "turn e j pid s = (Some Cancelled, s2)" by (simp add: turn_unfold)
    with ex rec show ?thesis by (cases j) simp_all
  next
    case (Some fcs)
    with d have "unaborted (items ?st)" by (auto dest: drain_Some_unaborted)
    with c False obtain err where err: "failure ?st = Some err" by (auto simp add: turn_stream_def)
    with False d Some have "turn e j pid s = fail err s2" by (simp add: turn_unfold)
    with ex rec show ?thesis by (cases j) (simp_all add: fail_def proj_append proj_single)
  qed
qed

lemma turn_tool_phase:
  assumes nl: "\<not> limit_reached e s"
    and u: "unaborted (items (turn_stream e pid s))"
    and f: "failure (turn_stream e pid s) = None"
  shows "\<exists>xs. length xs \<le> length (requested e pid s) \<and>
         (\<forall>i < length xs.
            executeToolCall e (execs s + i) (requestInfo (fst (xs ! i)) (requested e pid s ! i) pid)
              = Inr (fst (snd (xs ! i))) \<and>
            id_of_call (requested e pid s ! i) (fst (xs ! i)) \<and>
            (\<exists>k. snd (snd (xs ! i)) = toISOString e (clock e k))) \<and>
         (if length xs = length (requested e pid s)
          then trace (snd (turn e j pid s)) =
                 trace (drained e j pid s) @ tool_phase j pid (requested e pid s) xs @
                 (if requested e pid s = [] then [StdoutWrite [CHR 0x0A]] else []) \<and>
               fst (turn e j pid s) = (if requested e pid s = [] then Some Completed else None)
          else (\<exists>cid err.
                 id_of_call (requested e pid s ! length xs) cid \<and>
                 executeToolCall e (execs s + length xs)
                   (requestInfo cid (requested e pid s ! length xs) pid) = Inl err \<and>
                 trace (snd (turn e j pid s)) =
                   trace (drained e j pid s) @ tool_phase j pid (requested e pid s) xs @
                   [ExecuteToolCall (requestInfo cid (requested e pid s ! length xs) pid) (Inl err),
                    ConsoleError err, ProcessExit 1] \<and>
                 fst (turn e j pid s) = Some Failed))"
proof -
  let ?st = "sendMessageStream e (sends s) (first_parts (currentMessages s)) pid"
  let ?fcs = "requested e pid s"
  have fcs: "?fcs = map to_call (requests (items ?st))" by (simp add: requested_def turn_stream_def)
  from u have u': "unaborted (items ?st)" by (simp add: turn_stream_def)
  from f have f': "failure ?st = None" by (simp add: turn_stream_def)
  from drain_unaborted[OF u', of e j "[]" "opened e pid s"] obtain s2 where
    d: "drain e j (items ?st) [] (opened e pid s) = (Some ?fcs, s2)" by (auto simp add: fcs)
  then have dr: "drained e j pid s = s2" by (simp add: drained_def turn_stream_def)
  from drain_frame[OF d] have ex: "execs s2 = execs s" by (simp add: opened_fields)
  show ?thesis
  proof (cases "?fcs = []")
    case True
    with nl d f' have "turn e j pid s = (Some Completed, emit (StdoutWrite [CHR 0x0A]) s2)"
      by (simp add: turn_unfold)
    with True dr show ?thesis by (intro exI[of _ "[]"]) (simp add: tool_phase_simps)
  next
    case False
    obtain res s3 where x: "exec_tools e j pid ?fcs [] s2 = (res, s3)"
      by (cases "exec_tools e j pid ?fcs [] s2")
    from exec_tools_log[OF x] obtain xs where len: "length xs \<le> length ?fcs"
      and ans: "\<forall>i < length xs.
          executeToolCall e (execs s2 + i) (requestInfo (fst (xs ! i)) (?fcs ! i) pid) = Inr (fst (snd (xs ! i))) \<and>
          id_of_call (?fcs ! i) (fst (xs ! i)) \<and>
          (\<exists>k. snd (snd (xs ! i)) = toISOString e (clock e k))"
      and rest: "case res of
          Inr ps \<Rightarrow> length xs = length ?fcs \<and> trace s3 = trace s2 @ tool_phase j pid ?fcs xs
        | Inl err \<Rightarrow>
            length xs < length ?fcs \<and>
            (\<exists>cid. id_of_call (?fcs ! length xs) cid \<and>
               executeToolCall e (execs s2 + length xs) (requestInfo cid (?fcs ! length xs) pid) = Inl err \<and>
               trace s3 = trace s2 @ tool_phase j pid ?fcs xs @
                 [ExecuteToolCall (requestInfo cid (?fcs ! length xs) pid) (Inl err)])"
      by blast
    show ?thesis
    proof (cases res)
      case (Inr ps)
      with nl d f' False x have
        t: "turn e j pid s = (None, s3\<lparr>currentMessages := [\<lparr>role = ''user'', parts = Some ps\<rparr>]\<rparr>)"
        by (simp add: turn_unfold)
      from rest Inr have l: "length xs = length ?fcs" and tr: "trace s3 = trace s2 @ tool_phase j pid ?fcs xs"
        by simp_all
      from len ans l tr False show ?thesis
        by (intro exI[of _ xs]) (simp add: t dr ex)
    next
      case (Inl err)
      with nl d f' False x have t: "turn e j pid s = fail err s3" by (simp add: turn_unfold)
      from rest Inl obtain cid where l: "length xs < length ?fcs"
        and c: "id_of_call (?fcs ! length xs) cid"
        and th: "executeToolCall e (execs s2 + length xs) (requestInfo cid (?fcs ! length xs) pid) = Inl err"
        and tr: "trace s3 = trace s2 @ tool_phase j pid ?fcs xs @
                 [ExecuteToolCall (requestInfo cid (?fcs ! length xs) pid) (Inl err)]"
        by auto
      have "\<exists>cid err'.
                 id_of_call (?fcs ! length xs) cid \<and>
                 executeToolCall e (execs s + length xs)
                   (requestInfo cid (?fcs ! length xs) pid) = Inl err' \<and>
                 trace (snd (turn e j pid s)) =
                   trace (drained e j pid s) @ tool_phase j pid ?fcs xs @
                   [ExecuteToolCall (requestInfo cid (?fcs ! length xs) pid) (Inl err'),
                    ConsoleError err', ProcessExit 1] \<and>
                 fst (turn e j pid s) = Some Failed"
        using c th tr
        by (intro exI[of _ cid] exI[of _ err]) (simp add: t fail_def dr ex)
      with len ans l show ?thesis
        by (intro exI[of _ xs]) (simp add: ex)
    qed
  qed
qed

lemma drained_log:
  "executed (trace (drained e j pid s)) = executed (trace s) \<and>
   (\<exists>records.
      stdout_writes (trace (drained e True pid s)) = stdout_writes (trace s) @ map jsonl_line records \<and>
      list_all (\<lambda>x. field ''type'' x = Some (JStr ''token'') \<or>
                     field ''type'' x = Some (JStr ''tool_call'')) records)"
proof -
  obtain d s2 where d: "drain e j (items (turn_stream e pid s)) [] (opened e pid s) = (d, s2)"
    by (cases "drain e j (items (turn_stream e pid s)) [] (opened e pid s)")
  obtain d' s2' where d': "drain e True (items (turn_stream e pid s)) [] (opened e pid s) = (d', s2')"
    by (cases "drain e True (items (turn_stream e pid s)) [] (opened e pid s)")
  from drain_frame[OF d] d have "executed (trace (drained e j pid s)) = executed (trace s)"
    by (simp add: drained_def opened_fields proj_append proj_single)
  moreover from drain_jsonl_records[OF d'] d' have "\<exists>records.
      stdout_writes (trace (drained e True pid s)) = stdout_writes (trace s) @ map jsonl_line records \<and>
      list_all (\<lambda>x. field ''type'' x = Some (JStr ''token'') \<or>
                     field ''type'' x = Some (JStr ''tool_call'')) records"
    by (simp add: drained_def opened_fields proj_append proj_single)
  ultimately show ?thesis by simp
qed

lemma result_records_log:
  "length (result_records fcs xs) = min (length fcs) (length xs) \<and>
   list_all (\<lambda>x. field ''type'' x = Some (JStr ''tool_result'')) (result_records fcs xs)"
  by (auto simp add: result_records_def list_all_iff tool_result_type)

text \<open>
  Claim C5, as the code has it. Take any turn, from any session.

  If the turn limit is reached, an event of the stream arrives after cancellation, or the
  stream fails, then the executor is not called at all; the turn ends the session, and in
  JSONL mode it wrote \<^verbatim>\<open>token\<close> and \<^verbatim>\<open>tool_call\<close> records only.

  Otherwise, with \<open>N\<close> requests in the stream, the executor is called for the requested
  tools in the order of the requests until a call throws. \<open>xs\<close> lists the calls that
  returned, with the identifier, the response and the time stamp of each: the \<open>i\<close>-th of them
  was the \<open>i\<close>-th call to the executor in the turn, for the \<open>i\<close>-th request, and the response
  is what the executor gave to that call. The log of the turn is exactly: the log when the
  stream has been read (no execution in it), then for each call that returned its
  execution with its answer, in JSONL mode exactly one \<^verbatim>\<open>tool_result\<close> line, and a
  diagnostic when the tool reported an error; and then

  \<^item> when all \<open>N\<close> calls returned: nothing more, and the session goes on, if \<open>N > 0\<close>; the
    final newline, and the session is complete, if \<open>N = 0\<close>;

  \<^item> when the call for request \<open>length xs\<close> threw: that call with the error thrown, the
    diagnostic of the error and the exit of the process with status 1. The later requests
    are never executed, and the call that threw has no \<^verbatim>\<open>tool_result\<close> record.

  So the executor is called exactly \<open>N\<close> times when it never throws, and
  \<open>length xs + 1 \<le> N\<close> times otherwise; a call is made only when the effects of the calls
  before it are in the log (the executor is a function that has answered when the driver
  goes on, which is what \<^verbatim>\<open>await\<close> in the \<^verbatim>\<open>for\<close> loop gives; concurrent execution is
  not expressible in this model).
\<close>

theorem tool_calls_in_request_order_until_throw:
  "(limit_reached e s \<or> \<not> unaborted (items (turn_stream e pid s)) \<or> failure (turn_stream e pid s) \<noteq> None \<longrightarrow>
      executed (trace (snd (turn e j pid s))) = executed (trace s) \<and>
      (fst (turn e j pid s) = Some LimitReached \<or> fst (turn e j pid s) = Some Cancelled \<or>
       fst (turn e j pid s) = Some Failed) \<and>
      (j \<longrightarrow> (\<exists>records.
         stdout_writes (trace (snd (turn e j pid s))) = stdout_writes (trace s) @ map jsonl_line records \<and>
         list_all (\<lambda>x. field ''type'' x = Some (JStr ''token'') \<or>
                        field ''type'' x = Some (JStr ''tool_call'')) records))) \<and>
   (\<not> limit_reached e s \<and> unaborted (items (turn_stream e pid s)) \<and> failure (turn_stream e pid s) = None \<longrightarrow>
      (\<exists>xs. length xs \<le> length (requested e pid s) \<and>
         (\<forall>i < length xs.
            executeToolCall e (execs s + i) (requestInfo (fst (xs ! i)) (requested e pid s ! i) pid)
              = Inr (fst (snd (xs ! i))) \<and>
            id_of_call (requested e pid s ! i) (fst (xs ! i)) \<and>
            (\<exists>k. snd (snd (xs ! i)) = toISOString e (clock e k))) \<and>
         (if length xs = length (requested e pid s)
          then trace (snd (turn e j pid s)) =
                 trace (drained e j pid s) @ tool_phase j pid (requested e pid s) xs @
                 (if requested e pid s = [] then [StdoutWrite [CHR 0x0A]] else []) \<and>
               fst (turn e j pid s) = (if requested e pid s = [] then Some Completed else None)
          else (\<exists>cid err.
                 id_of_call (requested e pid s ! length xs) cid \<and>
                 executeToolCall e (execs s + length xs)
                   (requestInfo cid (requested e pid s ! length xs) pid) = Inl err \<and>
                 trace (snd (turn e j pid s)) =
                   trace (drained e j pid s) @ tool_phase j pid (requested e pid s) xs @
                   [ExecuteToolCall (requestInfo cid (requested e pid s ! length xs) pid) (Inl err),
                    ConsoleError err, ProcessExit 1] \<and>
                 fst (turn e j pid s) = Some Failed)) \<and>
         (never_throws e \<longrightarrow> length xs = length (requested e pid s)) \<and>
         map (\<lambda>x. name (fst x)) (executed (trace (snd (turn e j pid s)))) =
           map (\<lambda>x. name (fst x)) (executed (trace s)) @
           map fc_name (take (Suc (length xs)) (requested e pid s)) \<and>
         (j \<longrightarrow> (\<exists>records.
            stdout_writes (trace (snd (turn e j pid s))) =
              stdout_writes (trace s) @ map jsonl_line (records @ result_records (requested e pid s) xs) @
              (if requested e pid s = [] then [[CHR 0x0A]] else []) \<and>
            list_all (\<lambda>x. field ''type'' x = Some (JStr ''token'') \<or>
                           field ''type'' x = Some (JStr ''tool_call'')) records \<and>
            list_all (\<lambda>x. field ''type'' x = Some (JStr ''tool_result''))
              (result_records (requested e pid s) xs) \<and>
            length (result_records (requested e pid s) xs) = length xs))))"
proof (intro conjI impI)
  assume "limit_reached e s \<or> \<not> unaborted (items (turn_stream e pid s)) \<or> failure (turn_stream e pid s) \<noteq> None"
  from turn_without_tools[OF this, of j]
  show "executed (trace (snd (turn e j pid s))) = executed (trace s)"
    and "fst (turn e j pid s) = Some LimitReached \<or> fst (turn e j pid s) = Some Cancelled \<or>
       fst (turn e j pid s) = Some Failed"
    by simp_all
next
  assume "limit_reached e s \<or> \<not> unaborted (items (turn_stream e pid s)) \<or> failure (turn_stream e pid s) \<noteq> None"
    and j
  from turn_without_tools[OF this(1), of j] \<open>j\<close>
  show "\<exists>records.
         stdout_writes (trace (snd (turn e j pid s))) = stdout_writes (trace s) @ map jsonl_line records \<and>
         list_all (\<lambda>x. field ''type'' x = Some (JStr ''token'') \<or>
                        field ''type'' x = Some (JStr ''tool_call'')) records"
    by blast
next
  let ?fcs = "requested e pid s"
  let ?t = "turn e j pid s"
  assume a: "\<not> limit_reached e s \<and> unaborted (items (turn_stream e pid s)) \<and> failure (turn_stream e pid s) = None"
  then have nl: "\<not> limit_reached e s" and u: "unaborted (items (turn_stream e pid s))"
    and f: "failure (turn_stream e pid s) = None" by simp_all
  from turn_tool_phase[OF nl u f, of j] obtain xs where len: "length xs \<le> length ?fcs"
    and ans: "\<forall>i < length xs.
            executeToolCall e (execs s + i) (requestInfo (fst (xs ! i)) (?fcs ! i) pid)
              = Inr (fst (snd (xs ! i))) \<and>
            id_of_call (?fcs ! i) (fst (xs ! i)) \<and>
            (\<exists>k. snd (snd (xs ! i)) = toISOString e (clock e k))"
    and main: "if length xs = length ?fcs
          then trace (snd ?t) =
                 trace (drained e j pid s) @ tool_phase j pid ?fcs xs @
                 (if ?fcs = [] then [StdoutWrite [CHR 0x0A]] else []) \<and>
               fst ?t = (if ?fcs = [] then Some Completed else None)
          else (\<exists>cid err.
                 id_of_call (?fcs ! length xs) cid \<and>
                 executeToolCall e (execs s + length xs)
                   (requestInfo cid (?fcs ! length xs) pid) = Inl err \<and>
                 trace (snd ?t) =
                   trace (drained e j pid s) @ tool_phase j pid ?fcs xs @
                   [ExecuteToolCall (requestInfo cid (?fcs ! length xs) pid) (Inl err),
                    ConsoleError err, ProcessExit 1] \<and>
                 fst ?t = Some Failed)"
    by blast
  from drained_log[of e j pid s] have dx: "executed (trace (drained e j pid s)) = executed (trace s)"
    by simp
  have nt: "never_throws e \<longrightarrow> length xs = length ?fcs"
  proof (rule impI, rule ccontr)
    assume n: "never_throws e" and "length xs \<noteq> length ?fcs"
    with main obtain cid err where
      "executeToolCall e (execs s + length xs) (requestInfo cid (?fcs ! length xs) pid) = Inl err"
      by auto
    with n show False unfolding never_throws_def
      by (metis sum.distinct(1))
  qed
  have names: "map (\<lambda>x. name (fst x)) (executed (trace (snd ?t))) =
           map (\<lambda>x. name (fst x)) (executed (trace s)) @ map fc_name (take (Suc (length xs)) ?fcs)"
  proof (cases "length xs = length ?fcs")
    case True
    with main have "trace (snd ?t) =
                 trace (drained e j pid s) @ tool_phase j pid ?fcs xs @
                 (if ?fcs = [] then [StdoutWrite [CHR 0x0A]] else [])" by simp
    then show ?thesis
      using True by (simp add: proj_append proj_single dx tool_phase_log_names)
  next
    case False
    with len have l: "length xs < length ?fcs" by simp
    from main False obtain cid err where "trace (snd ?t) =
                   trace (drained e j pid s) @ tool_phase j pid ?fcs xs @
                   [ExecuteToolCall (requestInfo cid (?fcs ! length xs) pid) (Inl err),
                    ConsoleError err, ProcessExit 1]" by auto
    then show ?thesis
      using l by (simp add: proj_append proj_single dx tool_phase_log_names take_Suc_conv_app_nth
            requestInfo_def)
  qed
  have recs: "j \<longrightarrow> (\<exists>records.
            stdout_writes (trace (snd ?t)) =
              stdout_writes (trace s) @ map jsonl_line (records @ result_records ?fcs xs) @
              (if ?fcs = [] then [[CHR 0x0A]] else []) \<and>
            list_all (\<lambda>x. field ''type'' x = Some (JStr ''token'') \<or>
                           field ''type'' x = Some (JStr ''tool_call'')) records \<and>
            list_all (\<lambda>x. field ''type'' x = Some (JStr ''tool_result'')) (result_records ?fcs xs) \<and>
            length (result_records ?fcs xs) = length xs)"
  proof
    assume j: j
    from drained_log[of e j pid s] obtain records where
      r: "stdout_writes (trace (drained e True pid s)) = stdout_writes (trace s) @ map jsonl_line records"
      "list_all (\<lambda>x. field ''type'' x = Some (JStr ''token'') \<or>
                     field ''type'' x = Some (JStr ''tool_call'')) records" by blast
    have w: "stdout_writes (trace (snd ?t)) =
              stdout_writes (trace (drained e True pid s)) @ map jsonl_line (result_records ?fcs xs) @
              (if ?fcs = [] then [[CHR 0x0A]] else [])"
    proof (cases "length xs = length ?fcs")
      case True
      with main have "trace (snd ?t) =
                 trace (drained e j pid s) @ tool_phase j pid ?fcs xs @
                 (if ?fcs = [] then [StdoutWrite [CHR 0x0A]] else [])" by simp
      with j show ?thesis by (simp add: proj_append proj_single tool_phase_writes)
    next
      case False
      from main False obtain cid err where "trace (snd ?t) =
                   trace (drained e j pid s) @ tool_phase j pid ?fcs xs @
                   [ExecuteToolCall (requestInfo cid (?fcs ! length xs) pid) (Inl err),
                    ConsoleError err, ProcessExit 1]" by auto
      moreover from False len have "?fcs \<noteq> []" by auto
      ultimately show ?thesis using j by (simp add: proj_append proj_single tool_phase_writes)
    qed
    from len have "length (result_records ?fcs xs) = length xs"
      by (simp add: result_records_log)
    with r w result_records_log[of ?fcs xs]
    show "\<exists>records.
            stdout_writes (trace (snd ?t)) =
              stdout_writes (trace s) @ map jsonl_line (records @ result_records ?fcs xs) @
              (if ?fcs = [] then [[CHR 0x0A]] else []) \<and>
            list_all (\<lambda>x. field ''type'' x = Some (JStr ''token'') \<or>
                           field ''type'' x = Some (JStr ''tool_call'')) records \<and>
            list_all (\<lambda>x. field ''type'' x = Some (JStr ''tool_result'')) (result_records ?fcs xs) \<and>
            length (result_records ?fcs xs) = length xs"
      by (intro exI[of _ records]) simp
  qed
  from len ans main nt names recs
  show "\<exists>xs. length xs \<le> length (requested e pid s) \<and>
         (\<forall>i < length xs.
            executeToolCall e (execs s + i) (requestInfo (fst (xs ! i)) (requested e pid s ! i) pid)
              = Inr (fst (snd (xs ! i))) \<and>
            id_of_call (requested e pid s ! i) (fst (xs ! i)) \<and>
            (\<exists>k. snd (snd (xs ! i)) = toISOString e (clock e k))) \<and>
         (if length xs = length (requested e pid s)
          then trace (snd (turn e j pid s)) =
                 trace (drained e j pid s) @ tool_phase j pid (requested e pid s) xs @
                 (if requested e pid s = [] then [StdoutWrite [CHR 0x0A]] else []) \<and>
               fst (turn e j pid s) = (if requested e pid s = [] then Some Completed else None)
          else (\<exists>cid err.
                 id_of_call (requested e pid s ! length xs) cid \<and>
                 executeToolCall e (execs s + length xs)
                   (requestInfo cid (requested e pid s ! length xs) pid) = Inl err \<and>
                 trace (snd (turn e j pid s)) =
                   trace (drained e j pid s) @ tool_phase j pid (requested e pid s) xs @
                   [ExecuteToolCall (requestInfo cid (requested e pid s ! length xs) pid) (Inl err),
                    ConsoleError err, ProcessExit 1] \<and>
                 fst (turn e j pid s) = Some Failed)) \<and>
         (never_throws e \<longrightarrow> length xs = length (requested e pid s)) \<and>
         map (\<lambda>x. name (fst x)) (executed (trace (snd (turn e j pid s)))) =
           map (\<lambda>x. name (fst x)) (executed (trace s)) @
           map fc_name (take (Suc (length xs)) (requested e pid s)) \<and>
         (j \<longrightarrow> (\<exists>records.
            stdout_writes (trace (snd (turn e j pid s))) =
              stdout_writes (trace s) @ map jsonl_line (records @ result_records (requested e pid s) xs) @
              (if requested e pid s = [] then [[CHR 0x0A]] else []) \<and>
            list_all (\<lambda>x. field ''type'' x = Some (JStr ''token'') \<or>
                           field ''type'' x = Some (JStr ''tool_call'')) records \<and>
            list_all (\<lambda>x. field ''type'' x = Some (JStr ''tool_result''))
              (result_records (requested e pid s) xs) \<and>
            length (result_records (requested e pid s) xs) = length xs))"
    by (intro exI[of _ xs] conjI) assumption+
qed


lemma three_calls_facts:
  "\<not> limit_reached echo_env s"
  "\<not> limit_reached crashing_env s"
  "never_throws echo_env"
  "turn_stream echo_env pid (init_session input) = three_calls_stream"
  "turn_stream crashing_env pid (init_session input) = three_calls_stream"
  "unaborted (items three_calls_stream)"
  "failure three_calls_stream = None"
  "requests (items three_calls_stream) =
     [ToolCallRequestValue ''read'' None (Some ''c1''), ToolCallRequestValue ''grep'' None (Some ''c2''),
      ToolCallRequestValue ''write'' None (Some ''c3'')]"
  "requested echo_env pid (init_session input) =
     [FunctionCall ''read'' None (Some ''c1''), FunctionCall ''grep'' None (Some ''c2''),
      FunctionCall ''write'' None (Some ''c3'')]"
  by (simp_all add: echo_env_def crashing_env_def scripted_env_def limit_reached_def never_throws_def
        three_calls_stream_def unaborted_def requests_simps turn_stream_def requested_def to_call_def
        init_fields)

text \<open>
  Three requests and an executor that always returns: three calls, in the order of the
  requests, and the session goes on.
\<close>

theorem tool_calls_in_request_order_until_throw_witness:
  "map (\<lambda>x. name (fst x))
     (executed (trace (snd (turn echo_env True ''p1'' (init_session ''go''))))) =
     [''read'', ''grep'', ''write''] \<and>
   fst (turn echo_env True ''p1'' (init_session ''go'')) = None"
  using tool_calls_in_request_order_until_throw[of echo_env "init_session ''go''" "''p1''" True]
  by (auto simp add: three_calls_facts init_fields proj_single)

lemma crashing_drain:
  "drain crashing_env True (items three_calls_stream) []
     \<lparr>currentMessages = [\<lparr>role = ''user'', parts = Some [text_part ''go'']\<rparr>],
       turnCount = Suc 0,
       trace = [SendMessageStream [text_part ''go''] ''p1'' three_calls_stream],
       ticks = 0, sends = Suc 0, execs = 0\<rparr> =
   (Some [FunctionCall ''read'' None (Some ''c1''), FunctionCall ''grep'' None (Some ''c2''),
      FunctionCall ''write'' None (Some ''c3'')],
    \<lparr>currentMessages = [\<lparr>role = ''user'', parts = Some [text_part ''go'']\<rparr>],
       turnCount = Suc 0,
       trace = [SendMessageStream [text_part ''go''] ''p1'' three_calls_stream,
                StdoutWrite (jsonl_line (tool_call_event
                  (ToolCallRequestValue ''read'' None (Some ''c1'')) stamp)),
                StdoutWrite (jsonl_line (token_event ''ok'' stamp)),
                StdoutWrite (jsonl_line (tool_call_event
                  (ToolCallRequestValue ''grep'' None (Some ''c2'')) stamp)),
                StdoutWrite (jsonl_line (tool_call_event
                  (ToolCallRequestValue ''write'' None (Some ''c3'')) stamp))],
       ticks = 4, sends = Suc 0, execs = 0\<rparr>)"
  by (simp add: crashing_env_def echo_env_def scripted_env_def three_calls_stream_def
        emit_def isoNow_def stamp_def to_call_def)

lemma crashing_exec:
  "exec_tools crashing_env True ''p1''
     [FunctionCall ''read'' None (Some ''c1''), FunctionCall ''grep'' None (Some ''c2''),
      FunctionCall ''write'' None (Some ''c3'')] []
     \<lparr>currentMessages = ms, turnCount = tc, trace = tr, ticks = 4, sends = sn, execs = 0\<rparr> =
   (Inl ''disk full'',
    \<lparr>currentMessages = ms, turnCount = tc,
     trace = tr @
       [ExecuteToolCall (call_request ''c1'' ''read'') (Inr (echo (call_request ''c1'' ''read''))),
        StdoutWrite (jsonl_line (tool_result_event ''c1'' ''read''
                  (echo (call_request ''c1'' ''read'')) stamp)),
        ExecuteToolCall (call_request ''c2'' ''grep'') (Inl ''disk full'')],
     ticks = 5, sends = sn, execs = 2\<rparr>)"
  by (simp add: crashing_env_def echo_env_def scripted_env_def
        emit_def Let_def exec_tool_def resolve_callId_def isoNow_def
        requestInfo_def call_request_def stamp_def echo_def)

lemma crashing_opened:
  "opened crashing_env ''p1'' (init_session ''go'') =
     \<lparr>currentMessages = [\<lparr>role = ''user'', parts = Some [text_part ''go'']\<rparr>],
       turnCount = Suc 0,
       trace = [SendMessageStream [text_part ''go''] ''p1'' three_calls_stream],
       ticks = 0, sends = Suc 0, execs = 0\<rparr>"
  by (simp add: opened_def init_session_def first_parts_def emit_def crashing_env_def echo_env_def
        scripted_env_def)

lemma crashing_turn:
  "turn crashing_env True ''p1'' (init_session ''go'') =
     (Some Failed,
      \<lparr>currentMessages = [\<lparr>role = ''user'', parts = Some [text_part ''go'']\<rparr>],
       turnCount = Suc 0,
       trace = [SendMessageStream [text_part ''go''] ''p1'' three_calls_stream,
                StdoutWrite (jsonl_line (tool_call_event
                  (ToolCallRequestValue ''read'' None (Some ''c1'')) stamp)),
                StdoutWrite (jsonl_line (token_event ''ok'' stamp)),
                StdoutWrite (jsonl_line (tool_call_event
                  (ToolCallRequestValue ''grep'' None (Some ''c2'')) stamp)),
                StdoutWrite (jsonl_line (tool_call_event
                  (ToolCallRequestValue ''write'' None (Some ''c3'')) stamp)),
                ExecuteToolCall (call_request ''c1'' ''read'') (Inr (echo (call_request ''c1'' ''read''))),
                StdoutWrite (jsonl_line (tool_result_event ''c1'' ''read''
                  (echo (call_request ''c1'' ''read'')) stamp)),
                ExecuteToolCall (call_request ''c2'' ''grep'') (Inl ''disk full''),
                ConsoleError ''disk full'',
                ProcessExit 1],
       ticks = 5, sends = Suc 0, execs = 2\<rparr>)"
proof -
  have st: "sendMessageStream crashing_env (sends (init_session ''go''))
              (first_parts (currentMessages (init_session ''go''))) ''p1'' = three_calls_stream"
    using three_calls_facts(5)[of "''p1''" "''go''"] by (simp add: turn_stream_def)
  show ?thesis
    by (simp add: turn_unfold[OF three_calls_facts(2)] st crashing_opened crashing_drain
          three_calls_facts(7) crashing_exec fail_def emit_def
          del: exec_tools.simps drain.simps)
qed

text \<open>
  Claim C5 as stated fails when a call throws: with three requests in the stream and an
  executor whose second call throws, the executor is called twice, one \<^verbatim>\<open>tool_result\<close>
  record is written, and the process exits with status 1.
\<close>

theorem throwing_tool_counterexample:
  "length (requests (items (turn_stream crashing_env ''p1'' (init_session ''go'')))) = 3 \<and>
   fst (turn crashing_env True ''p1'' (init_session ''go'')) = Some Failed \<and>
   executed (trace (snd (turn crashing_env True ''p1'' (init_session ''go'')))) =
     [(call_request ''c1'' ''read'', Inr (echo (call_request ''c1'' ''read''))),
      (call_request ''c2'' ''grep'', Inl ''disk full'')] \<and>
   stdout_writes (trace (snd (turn crashing_env True ''p1'' (init_session ''go'')))) =
     map jsonl_line
       [tool_call_event (ToolCallRequestValue ''read'' None (Some ''c1'')) stamp,
        token_event ''ok'' stamp,
        tool_call_event (ToolCallRequestValue ''grep'' None (Some ''c2'')) stamp,
        tool_call_event (ToolCallRequestValue ''write'' None (Some ''c3'')) stamp,
        tool_result_event ''c1'' ''read'' (echo (call_request ''c1'' ''read'')) stamp] \<and>
   console_errors (trace (snd (turn crashing_env True ''p1'' (init_session ''go'')))) = [''disk full''] \<and>
   exits (trace (snd (turn crashing_env True ''p1'' (init_session ''go'')))) = [1]"
  by (simp add: crashing_turn three_calls_facts proj_single)


section \<open>The message batch, call identifiers and tool results\<close>

lemma wrap_or_pass_spec_eq: "wrap_or_pass_spec = push_part"
proof
  fix p show "wrap_or_pass_spec p = push_part p" by (cases p) simp_all
qed

lemma turn_None_D:
  assumes t: "turn e j pid s = (None, s')"
  shows "\<exists>s2 s3 fcs xs.
           drain e j (items (sendMessageStream e (sends s) (first_parts (currentMessages s)) pid)) []
             (opened e pid s) = (Some fcs, s2) \<and>
           length xs = length fcs \<and> fcs \<noteq> [] \<and>
           trace s3 = trace s2 @ tool_phase j pid fcs xs \<and>
           s' = s3\<lparr>currentMessages := [\<lparr>role = ''user'',
                parts = Some (concat (map (\<lambda>(cid, r, ts). pushed_parts (responseParts r)) xs))\<rparr>]\<rparr>"
proof -
  let ?st = "sendMessageStream e (sends s) (first_parts (currentMessages s)) pid"
  from t have nl: "\<not> limit_reached e s" by (auto simp add: turn_if split: if_splits)
  obtain d s2 where d: "drain e j (items ?st) [] (opened e pid s) = (d, s2)"
    by (cases "drain e j (items ?st) [] (opened e pid s)")
  from t nl d obtain fcs where fcs: "d = Some fcs" by (cases d) (auto simp add: turn_unfold)
  from t nl d fcs have f: "failure ?st = None"
    by (cases "failure ?st") (auto simp add: turn_unfold fail_def)
  from t nl d fcs f have ne: "fcs \<noteq> []" by (auto simp add: turn_unfold split: if_splits)
  obtain r3 s3 where x: "exec_tools e j pid fcs [] s2 = (r3, s3)"
    by (cases "exec_tools e j pid fcs [] s2")
  from t nl d fcs f ne x obtain ps where ps: "r3 = Inr ps"
    and s': "s' = s3\<lparr>currentMessages := [\<lparr>role = ''user'', parts = Some ps\<rparr>]\<rparr>"
    by (cases r3) (auto simp add: turn_unfold fail_def)
  from exec_tools_trace[OF x[unfolded ps]] obtain xs where xs: "length xs = length fcs"
    "trace s3 = trace s2 @ tool_phase j pid fcs xs"
    "ps = concat (map (\<lambda>(cid, r, ts). pushed_parts (responseParts r)) xs)" by auto
  with d fcs ne s' show ?thesis by blast
qed

lemma answer_parts_tool_phase:
  "length xs = length fcs \<Longrightarrow>
     concat (map answer_parts (map (\<lambda>(fc, cid, r, ts). (requestInfo cid fc pid, Inr r)) (zip fcs xs)))
       = concat (map (\<lambda>(cid, r, ts). pushed_parts (responseParts r)) xs)"
proof (induction fcs xs rule: list_induct2')
  case (4 fc fcs x xs)
  then show ?case by (cases x) (simp add: answer_parts_def)
qed simp_all

lemma run_loop_batch:
  "length (currentMessages s) = 1 \<Longrightarrow> length (currentMessages (snd (run_loop n e j pid s))) = 1"
proof (induction n arbitrary: s)
  case 0
  then show ?case by simp
next
  case (Suc n)
  obtain o1 s1 where t: "turn e j pid s = (o1, s1)" by (cases "turn e j pid s")
  show ?case
  proof (cases "limit_reached e s")
    case True
    with t Suc.prems show ?thesis by (auto simp add: turn_limit)
  next
    case False
    from turn_step[OF False t] Suc.prems have "length (currentMessages s1) = 1"
      by (cases o1) auto
    with t Suc.IH[of s1] show ?thesis by (cases o1) auto
  qed
qed

text \<open>
  Claim C7, as the code has it. The batch holds exactly one message at every turn: it
  starts as one user message with the input text, and a turn after which the loop goes on
  replaces it by one user message whose parts are, for the tool executions of the turn in
  order, the parts each response contributes. A response contributes nothing when its
  \<^verbatim>\<open>responseParts\<close> is falsy (absent, or the empty string as a single part);
  otherwise the single part or the sequence is flattened, every string entry (the empty
  string too) becomes a text part, any other truthy entry is passed through, the rest is
  skipped. This is the normalization of the specification except for the empty string as
  a single part.
\<close>

theorem one_message_batch_of_tool_parts:
  "length (currentMessages (snd (runNonInteractive n e input pid j))) = 1 \<and>
   currentMessages (snd (runNonInteractive 0 e input pid j)) =
     [\<lparr>role = ''user'', parts = Some [text_part input]\<rparr>] \<and>
   (turn e j pid s = (None, s') \<longrightarrow>
      (\<exists>answers. answers \<noteq> [] \<and> executed (trace s') = executed (trace s) @ answers \<and>
         currentMessages s' =
           [\<lparr>role = ''user'', parts = Some (concat (map answer_parts answers))\<rparr>])) \<and>
   pushed_parts (Many ps) = concat (map push_part ps) \<and>
   pushed_parts (Single p) = (if p = PString [] then [] else push_part p) \<and>
   (r \<noteq> Single (PString []) \<longrightarrow> pushed_parts r = normalized_parts_spec r)"
proof (intro conjI impI)
  show "length (currentMessages (snd (runNonInteractive n e input pid j))) = 1"
    unfolding runNonInteractive_def by (rule run_loop_batch) (simp add: init_fields)
  show "currentMessages (snd (runNonInteractive 0 e input pid j)) =
     [\<lparr>role = ''user'', parts = Some [text_part input]\<rparr>]"
    by (simp add: runNonInteractive_def init_fields)
  show "pushed_parts (Many ps) = concat (map push_part ps)"
    by (simp add: pushed_parts_def)
  show "pushed_parts (Single p) = (if p = PString [] then [] else push_part p)"
    by (cases p) (simp_all add: pushed_parts_def)
  {
    assume "r \<noteq> Single (PString [])"
    then show "pushed_parts r = normalized_parts_spec r"
    proof (cases r)
      case (Single p)
      with \<open>r \<noteq> Single (PString [])\<close> show ?thesis
        by (cases p) (simp_all add: pushed_parts_def normalized_parts_spec_def wrap_or_pass_spec_eq)
    next
      case (Many ps)
      then show ?thesis by (simp add: pushed_parts_def normalized_parts_spec_def wrap_or_pass_spec_eq)
    qed
  }
  {
    assume t: "turn e j pid s = (None, s')"
    from turn_None_D[OF t] obtain s2 s3 fcs xs where
      d: "drain e j (items (sendMessageStream e (sends s) (first_parts (currentMessages s)) pid)) []
             (opened e pid s) = (Some fcs, s2)"
      and len: "length xs = length fcs" and ne: "fcs \<noteq> []"
      and tr: "trace s3 = trace s2 @ tool_phase j pid fcs xs"
      and s': "s' = s3\<lparr>currentMessages := [\<lparr>role = ''user'',
                parts = Some (concat (map (\<lambda>(cid, r, ts). pushed_parts (responseParts r)) xs))\<rparr>]\<rparr>"
      by blast
    let ?answers = "map (\<lambda>(fc, cid, r, ts). (requestInfo cid fc pid, Inr r)) (zip fcs xs)"
    from drain_frame[OF d] have "executed (trace s2) = executed (trace s)"
      by (simp add: opened_fields proj_append proj_single)
    with tr s' tool_phase_proj[OF len, of j pid]
    have "executed (trace s') = executed (trace s) @ ?answers" by (simp add: proj_append)
    moreover from s' answer_parts_tool_phase[OF len, of pid]
    have "currentMessages s' = [\<lparr>role = ''user'', parts = Some (concat (map answer_parts ?answers))\<rparr>]"
      by simp
    moreover from ne len have "?answers \<noteq> []" by (cases fcs; cases xs) auto
    ultimately show "\<exists>answers. answers \<noteq> [] \<and> executed (trace s') = executed (trace s) @ answers \<and>
         currentMessages s' =
           [\<lparr>role = ''user'', parts = Some (concat (map answer_parts answers))\<rparr>]"
      by blast
  }
qed

text \<open>
  Claim C7 as stated fails on the empty string: as a single part it is a plain-text entry
  that is not wrapped (the specification's normalization wraps it), and inside a sequence it
  is a falsy entry that is not skipped.
\<close>

theorem empty_string_part_counterexample:
  "pushed_parts (Single (PString [])) = [] \<and>
   normalized_parts_spec (Single (PString [])) = [text_part []] \<and>
   pushed_parts (Many [PString []]) = [text_part []]"
  by (simp add: pushed_parts_def normalized_parts_spec_def)

lemma digit_char_simps:
  "digit_char 0 = CHR ''0''" "digit_char (Suc 0) = CHR ''1''" "digit_char 2 = CHR ''2''"
  "digit_char 3 = CHR ''3''" "digit_char 4 = CHR ''4''" "digit_char 5 = CHR ''5''"
  "digit_char 6 = CHR ''6''" "digit_char 7 = CHR ''7''" "digit_char 8 = CHR ''8''"
  "digit_char 9 = CHR ''9''"
  by code_simp+

lemma dec_examples:
  "dec 1700000000000 = ''1700000000000''"
  "dec 1700000000001 = ''1700000000001''"
  by (simp_all add: dec.simps digit_char_simps)

lemma scenario_turn_plain:
  "turn scenario_env False ''p1'' (init_session ''find x'') =
     (None,
      \<lparr>currentMessages = [\<lparr>role = ''user'', parts = Some []\<rparr>],
       turnCount = 1,
       trace = [SendMessageStream [text_part ''find x''] ''p1'' scenario_stream,
                ExecuteToolCall (search_request ''search-1700000000000'') (Inr boom),
                ConsoleError ''Error executing tool search: boom''],
       ticks = 1, sends = 1, execs = 1\<rparr>)"
  by (simp add: turn_def init_session_def scenario_env_def scripted_env_def scenario_stream_def
        first_parts_def emit_def Let_def exec_tool_def resolve_callId_def dateNow_def
        requestInfo_def search_request_def boom_def dec_examples tool_error_notice_def or_else_def
        to_call_def
        pushed_parts_def)

lemma scenario_run_jsonl:
  "runNonInteractive (Suc (Suc 0)) scenario_env ''find x'' ''p1'' True =
     (Some Completed,
      \<lparr>currentMessages = [\<lparr>role = ''user'', parts = Some []\<rparr>],
       turnCount = 2,
       trace = [SendMessageStream [text_part ''find x''] ''p1'' scenario_stream,
                StdoutWrite (jsonl_line (tool_call_event
                  (ToolCallRequestValue ''search'' (Some [(''q'', JStr ''x'')]) None)
                  ''2023-11-14T22:13:20.000Z'')),
                ExecuteToolCall (search_request ''search-1700000000001'') (Inr boom),
                StdoutWrite (jsonl_line (tool_result_event ''search-1700000000001'' ''search'' boom
                  ''2023-11-14T22:13:20.000Z'')),
                ConsoleError ''Error executing tool search: boom'',
                SendMessageStream [] ''p1'' \<lparr>items = [], failure = None\<rparr>,
                StdoutWrite [CHR 0x0A]],
       ticks = 3, sends = 2, execs = 1\<rparr>)"
  by (simp add: runNonInteractive_def turn_def init_session_def scenario_env_def
        scripted_env_def scenario_stream_def
        first_parts_def emit_def Let_def exec_tool_def resolve_callId_def dateNow_def isoNow_def
        requestInfo_def search_request_def boom_def dec_examples tool_error_notice_def or_else_def
        to_call_def
        pushed_parts_def)

theorem one_message_batch_of_tool_parts_witness:
  "currentMessages (snd (turn scenario_env False ''p1'' (init_session ''find x''))) =
     [\<lparr>role = ''user'', parts = Some []\<rparr>] \<and>
   pushed_parts (Many [PString ''a'', PFalsy, PObject [(''k'', JNull)]]) =
     normalized_parts_spec (Many [PString ''a'', PFalsy, PObject [(''k'', JNull)]]) \<and>
   length (currentMessages (snd (runNonInteractive 2 scenario_env ''find x'' ''p1'' False))) = 1"
  using one_message_batch_of_tool_parts[where n = 2 and e = scenario_env and input = "''find x''"
      and pid = "''p1''" and j = False and s = "init_session ''find x''"
      and s' = "snd (turn scenario_env False ''p1'' (init_session ''find x''))"
      and r = "Many [PString ''a'', PFalsy, PObject [(''k'', JNull)]]"]
  by (simp add: scenario_turn_plain proj_single answer_parts_def boom_def pushed_parts_def)

lemma resolve_callId_eq:
  "resolve_callId e fc s =
     (resolved_id e fc s, case fc_id fc of Some i \<Rightarrow> s | None \<Rightarrow> s\<lparr>ticks := Suc (ticks s)\<rparr>)"
  by (simp add: resolve_callId_def resolved_id_def dateNow_eq split: option.splits)

lemma exec_tool_effects:
  "\<exists>answer ts.
      answer = executeToolCall e (execs s) (requestInfo (resolved_id e fc s) fc pid) \<and>
      executed (trace (snd (exec_tool e j pid fc acc s))) =
        executed (trace s) @ [(requestInfo (resolved_id e fc s) fc pid, answer)] \<and>
      stdout_writes (trace (snd (exec_tool e j pid fc acc s))) =
        stdout_writes (trace s) @
          (case answer of
             Inr r \<Rightarrow> if j then [jsonl_line (tool_result_event (resolved_id e fc s) (fc_name fc) r ts)]
                      else []
           | Inl err \<Rightarrow> []) \<and>
      console_errors (trace (snd (exec_tool e j pid fc acc s))) =
        console_errors (trace s) @
          (case answer of
             Inr r \<Rightarrow> (case error r of Some m \<Rightarrow> [tool_error_notice (fc_name fc) r m] | None \<Rightarrow> [])
           | Inl err \<Rightarrow> []) \<and>
      exits (trace (snd (exec_tool e j pid fc acc s))) = exits (trace s) \<and>
      fst (exec_tool e j pid fc acc s) =
        (case answer of Inr r \<Rightarrow> Inr (acc @ pushed_parts (responseParts r)) | Inl err \<Rightarrow> Inl err)"
proof (cases "executeToolCall e (execs s) (requestInfo (resolved_id e fc s) fc pid)")
  case (Inl err)
  from exec_tool_Inl[OF this, of j acc] obtain s' where
    "exec_tool e j pid fc acc s = (Inl err, s')"
    "trace s' = trace s @ [ExecuteToolCall (requestInfo (resolved_id e fc s) fc pid) (Inl err)]"
    by blast
  with Inl show ?thesis by (simp add: proj_append proj_single)
next
  case (Inr r)
  from exec_tool_Inr[OF this, of j acc] obtain s' ts where
    "exec_tool e j pid fc acc s = (Inr (acc @ pushed_parts (responseParts r)), s')"
    "trace s' = trace s @ call_effects j pid fc (resolved_id e fc s) r ts"
    by blast
  with Inr show ?thesis
    by (intro exI[of _ "Inr r"] exI[of _ ts]) (simp add: proj_append call_effects_proj)
qed

text \<open>
  Claim C3, as the code has it. The \<^verbatim>\<open>tool_call\<close> record carries the identifier of the
  request as it came: the explicit identifier verbatim, and no \<^verbatim>\<open>call_id\<close> at all when
  the request has none; the function call kept for execution has the same optional
  identifier. At execution the identifier is resolved once, to the explicit identifier or
  to the name, a dash and one reading of the clock, and that one identifier is the
  \<^verbatim>\<open>callId\<close> of the request given to the executor and the \<^verbatim>\<open>call_id\<close> of the
  \<^verbatim>\<open>tool_result\<close> record.
\<close>

theorem call_id_resolved_once_at_execution:
  "data_field ''call_id'' (tool_call_event q ts) = map_option JStr (req_callId q) \<and>
   drain e True ((False, ToolCallRequest q) # rest) fcs s =
     drain e True rest (fcs @ [to_call q])
       (emit (StdoutWrite (jsonl_line (tool_call_event q (toISOString e (clock e (ticks s))))))
          (s\<lparr>ticks := Suc (ticks s)\<rparr>)) \<and>
   fc_id (to_call q) = req_callId q \<and>
   fst (resolve_callId e fc s) =
     (case fc_id fc of Some i \<Rightarrow> i | None \<Rightarrow> fc_name fc @ ''-'' @ dec (clock e (ticks s))) \<and>
   ticks (snd (resolve_callId e fc s)) = (case fc_id fc of Some i \<Rightarrow> ticks s | None \<Rightarrow> Suc (ticks s)) \<and>
   (\<exists>ts'.
      executed (trace (snd (exec_tool e j pid fc acc s))) =
        executed (trace s) @
          [(requestInfo (fst (resolve_callId e fc s)) fc pid,
            executeToolCall e (execs s) (requestInfo (fst (resolve_callId e fc s)) fc pid))] \<and>
      stdout_writes (trace (snd (exec_tool e j pid fc acc s))) =
        stdout_writes (trace s) @
          (case executeToolCall e (execs s) (requestInfo (fst (resolve_callId e fc s)) fc pid) of
             Inr r \<Rightarrow> if j then [jsonl_line (tool_result_event (fst (resolve_callId e fc s))
                                                  (fc_name fc) r ts')]
                      else []
           | Inl err \<Rightarrow> [])) \<and>
   callId (requestInfo cid fc pid) = cid \<and>
   data_field ''call_id'' (tool_result_event cid nm r ts'') = Some (JStr cid)"
proof (intro conjI)
  show "data_field ''call_id'' (tool_call_event q ts) = map_option JStr (req_callId q)"
    by (cases "req_args q"; cases "req_callId q")
       (simp_all add: data_field_def field_def tool_call_event_def js_object_def List.map_filter_def)
  show "drain e True ((False, ToolCallRequest q) # rest) fcs s =
     drain e True rest (fcs @ [to_call q])
       (emit (StdoutWrite (jsonl_line (tool_call_event q (toISOString e (clock e (ticks s))))))
          (s\<lparr>ticks := Suc (ticks s)\<rparr>))"
    by (simp add: drain_step del: drain.simps)
  show "fc_id (to_call q) = req_callId q" by (simp add: to_call_def)
  show "fst (resolve_callId e fc s) =
     (case fc_id fc of Some i \<Rightarrow> i | None \<Rightarrow> fc_name fc @ ''-'' @ dec (clock e (ticks s)))"
    by (simp add: resolve_callId_eq resolved_id_def)
  show "ticks (snd (resolve_callId e fc s)) = (case fc_id fc of Some i \<Rightarrow> ticks s | None \<Rightarrow> Suc (ticks s))"
    by (simp add: resolve_callId_eq split: option.splits)
  from exec_tool_effects[of e s fc pid j acc]
  show "\<exists>ts'.
      executed (trace (snd (exec_tool e j pid fc acc s))) =
        executed (trace s) @
          [(requestInfo (fst (resolve_callId e fc s)) fc pid,
            executeToolCall e (execs s) (requestInfo (fst (resolve_callId e fc s)) fc pid))] \<and>
      stdout_writes (trace (snd (exec_tool e j pid fc acc s))) =
        stdout_writes (trace s) @
          (case executeToolCall e (execs s) (requestInfo (fst (resolve_callId e fc s)) fc pid) of
             Inr r \<Rightarrow> if j then [jsonl_line (tool_result_event (fst (resolve_callId e fc s))
                                                  (fc_name fc) r ts')]
                      else []
           | Inl err \<Rightarrow> [])"
    unfolding resolve_callId_eq fst_conv by blast
  show "callId (requestInfo cid fc pid) = cid" by (simp add: requestInfo_def)
  show "data_field ''call_id'' (tool_result_event cid nm r ts'') = Some (JStr cid)"
    by (simp add: data_field_def field_def tool_result_event_def)
qed

theorem call_id_resolved_once_at_execution_witness:
  "executed (trace (snd (exec_tool scenario_env True ''p1'' search_call [] (init_session ''find x'')))) =
     [(search_request ''search-1700000000000'', Inr boom)] \<and>
   data_field ''call_id'' (tool_result_event ''search-1700000000000'' ''search'' boom ''now'') =
     Some (JStr ''search-1700000000000'')"
proof -
  note th = call_id_resolved_once_at_execution[where e = scenario_env and fc = search_call
      and s = "init_session ''find x''" and j = True and pid = "''p1''" and acc = "[]"
      and cid = "''search-1700000000000''" and nm = "''search''" and r = boom and ts'' = "''now''"
      and q = "ToolCallRequestValue ''search'' None None" and ts = "''now''" and rest = "[]"
      and fcs = "[]"]
  from th have id: "fst (resolve_callId scenario_env search_call (init_session ''find x'')) =
      ''search-1700000000000''"
    by (simp add: search_call_def scenario_env_def scripted_env_def init_fields dec_examples)
  from th obtain ts' where
    "executed (trace (snd (exec_tool scenario_env True ''p1'' search_call [] (init_session ''find x'')))) =
        executed (trace (init_session ''find x'')) @
          [(requestInfo (fst (resolve_callId scenario_env search_call (init_session ''find x''))) search_call ''p1'',
            executeToolCall scenario_env (execs (init_session ''find x''))
              (requestInfo (fst (resolve_callId scenario_env search_call (init_session ''find x''))) search_call ''p1''))]"
    by blast
  then have "executed (trace (snd (exec_tool scenario_env True ''p1'' search_call [] (init_session ''find x'')))) =
     [(search_request ''search-1700000000000'', Inr boom)]"
    unfolding id
    by (simp add: init_fields proj_single requestInfo_def search_call_def search_request_def
          scenario_env_def scripted_env_def)
  moreover from th have "data_field ''call_id'' (tool_result_event ''search-1700000000000'' ''search'' boom ''now'') =
     Some (JStr ''search-1700000000000'')" by blast
  ultimately show ?thesis by blast
qed

text \<open>
  Claim C3 as stated fails for a request without identifier: the \<^verbatim>\<open>tool_call\<close> record of
  the call carries no identifier, while the executor and the \<^verbatim>\<open>tool_result\<close> record get
  the synthesized one.
\<close>

theorem tool_call_record_without_id_counterexample:
  "stdout_writes (trace (snd (runNonInteractive 2 scenario_env ''find x'' ''p1'' True))) =
     [jsonl_line (JObj [(''type'', JStr ''tool_call''),
                        (''data'', JObj [(''name'', JStr ''search''),
                                         (''args'', JObj [(''q'', JStr ''x'')])]),
                        (''timestamp'', JStr ''2023-11-14T22:13:20.000Z'')]),
      jsonl_line (JObj [(''type'', JStr ''tool_result''),
                        (''data'', JObj [(''call_id'', JStr ''search-1700000000001''),
                                         (''name'', JStr ''search''),
                                         (''result'', JStr ''boom''),
                                         (''error'', JStr ''boom'')]),
                        (''timestamp'', JStr ''2023-11-14T22:13:20.000Z'')]),
      [CHR 0x0A]] \<and>
   map (\<lambda>x. callId (fst x))
     (executed (trace (snd (runNonInteractive 2 scenario_env ''find x'' ''p1'' True)))) =
     [''search-1700000000001''] \<and>
   data_field ''call_id''
     (tool_call_event (ToolCallRequestValue ''search'' (Some [(''q'', JStr ''x'')]) None)
        ''2023-11-14T22:13:20.000Z'') = None"
  by (simp add: scenario_run_jsonl numeral_2_eq_2 proj_single tool_call_event_def
        tool_result_event_def js_object_def List.map_filter_def result_field_def error_field_def
        or_else_def boom_def search_request_def data_field_def field_def)





section \<open>The turn limit\<close>

lemma drain_console:
  "drain e j its fcs s = (r, s') \<Longrightarrow>
     set (console_errors (trace s')) \<subseteq> set (console_errors (trace s)) \<union> {cancel_notice}"
proof (induction its arbitrary: fcs s)
  case Nil
  then show ?case by auto
next
  case (Cons it its)
  obtain a ev where it: "it = (a, ev)" by (cases it)
  show ?case
  proof (cases a)
    case True
    with Cons.prems it show ?thesis
      by (auto simp add: drain_step proj_append proj_single simp del: drain.simps)
  next
    case False
    show ?thesis
    proof (cases ev)
      case (Content v)
      let ?s1 = "if j then emit (StdoutWrite (jsonl_line (token_event v (toISOString e (clock e (ticks s))))))
                   (s\<lparr>ticks := Suc (ticks s)\<rparr>) else emit (StdoutWrite v) s"
      from Cons.prems it False Content have "drain e j its fcs ?s1 = (r, s')"
        by (simp add: drain_step del: drain.simps)
      from Cons.IH[OF this] show ?thesis by (cases j) (simp_all add: proj_append proj_single)
    next
      case (ToolCallRequest q)
      let ?s1 = "if j then emit (StdoutWrite (jsonl_line (tool_call_event q (toISOString e (clock e (ticks s))))))
                   (s\<lparr>ticks := Suc (ticks s)\<rparr>) else s"
      from Cons.prems it False ToolCallRequest have "drain e j its (fcs @ [to_call q]) ?s1 = (r, s')"
        by (simp add: drain_step del: drain.simps)
      from Cons.IH[OF this] show ?thesis by (cases j) (simp_all add: proj_append proj_single)
    next
      case OtherEvent
      with Cons.prems it False have "drain e j its fcs s = (r, s')"
        by (simp add: drain_step del: drain.simps)
      from Cons.IH[OF this] show ?thesis .
    qed
  qed
qed

lemma exec_tool_console:
  assumes "exec_tool e j pid fc acc s = (res, s')"
  shows "set (console_errors (trace s')) \<subseteq> set (console_errors (trace s)) \<union> {x. may_print e x} \<and>
         (\<forall>err. res = Inl err \<longrightarrow> may_print e err)"
proof (cases "executeToolCall e (execs s) (requestInfo (resolved_id e fc s) fc pid)")
  case (Inl err)
  then have "may_print e err" unfolding may_print_def by blast
  with exec_tool_Inl[OF Inl, of j acc] assms show ?thesis
    by (auto simp add: proj_append proj_single)
next
  case (Inr r)
  have "may_print e (tool_error_notice nm r m)" for nm m unfolding may_print_def by blast
  with exec_tool_Inr[OF Inr, of j acc] assms show ?thesis
    by (auto simp add: proj_append call_effects_proj split: option.splits)
qed

lemma exec_tools_console:
  "exec_tools e j pid fcs acc s = (res, s') \<Longrightarrow>
     set (console_errors (trace s')) \<subseteq> set (console_errors (trace s)) \<union> {x. may_print e x} \<and>
     (\<forall>err. res = Inl err \<longrightarrow> may_print e err)"
proof (induction fcs arbitrary: acc s)
  case Nil
  then show ?case by auto
next
  case (Cons fc fcs)
  obtain r1 s1 where step: "exec_tool e j pid fc acc s = (r1, s1)" by (cases "exec_tool e j pid fc acc s")
  note c = exec_tool_console[OF step]
  show ?case
  proof (cases r1)
    case (Inl err)
    with Cons.prems step c show ?thesis by auto
  next
    case (Inr acc1)
    with Cons.prems step have "exec_tools e j pid fcs acc1 s1 = (res, s')" by simp
    from Cons.IH[OF this] c show ?thesis by auto
  qed
qed

lemma turn_console:
  assumes nl: "\<not> limit_reached e s" and t: "turn e j pid s = (out, s')"
  shows "set (console_errors (trace s')) \<subseteq> set (console_errors (trace s)) \<union> {x. may_print e x}"
proof -
  let ?st = "sendMessageStream e (sends s) (first_parts (currentMessages s)) pid"
  obtain d s2 where d: "drain e j (items ?st) [] (opened e pid s) = (d, s2)"
    by (cases "drain e j (items ?st) [] (opened e pid s)")
  have c: "may_print e cancel_notice" by (simp add: may_print_def)
  from drain_console[OF d] c
  have d2: "set (console_errors (trace s2)) \<subseteq> set (console_errors (trace s)) \<union> {x. may_print e x}"
    by (auto simp add: opened_fields proj_append proj_single)
  show ?thesis
  proof (cases d)
    case None
    with t d nl d2 show ?thesis by (auto simp add: turn_unfold)
  next
    case (Some fcs)
    show ?thesis
    proof (cases "failure ?st")
      case (Some err)
      then have "may_print e err" unfolding may_print_def by blast
      with t d nl d2 Some \<open>d = Some fcs\<close> show ?thesis
        by (auto simp add: turn_unfold fail_def proj_append proj_single)
    next
      case None
      show ?thesis
      proof (cases "fcs = []")
        case True
        with t d nl d2 None \<open>d = Some fcs\<close> show ?thesis
          by (auto simp add: turn_unfold proj_append proj_single)
      next
        case False
        obtain r3 s3 where x: "exec_tools e j pid fcs [] s2 = (r3, s3)"
          by (cases "exec_tools e j pid fcs [] s2")
        note xc = exec_tools_console[OF x]
        show ?thesis
        proof (cases r3)
          case (Inl err)
          with t d nl d2 None \<open>d = Some fcs\<close> False x xc show ?thesis
            by (auto simp add: turn_unfold fail_def proj_append proj_single)
        next
          case (Inr ps)
          with t d nl d2 None \<open>d = Some fcs\<close> False x xc show ?thesis
            by (auto simp add: turn_unfold proj_append proj_single)
        qed
      qed
    qed
  qed
qed

lemma run_loop_console:
  assumes L: "getMaxSessionTurns e < 0"
  shows "set (console_errors (trace (snd (run_loop n e j pid s))))
           \<subseteq> set (console_errors (trace s)) \<union> {x. may_print e x}"
proof (induction n arbitrary: s)
  case 0
  then show ?case by simp
next
  case (Suc n)
  obtain o1 s1 where t: "turn e j pid s = (o1, s1)" by (cases "turn e j pid s")
  from L have nl: "\<not> limit_reached e s" by (simp add: limit_reached_def)
  from turn_console[OF nl t] t Suc.IH[of s1] show ?case by (cases o1) auto
qed

lemma limit_notice_not_printed:
  assumes "\<forall>k ps pid. failure (sendMessageStream e k ps pid) \<noteq> Some limit_notice"
    and "\<forall>k req. executeToolCall e k req \<noteq> Inl limit_notice"
  shows "\<not> may_print e limit_notice"
  using assms
  by (auto simp add: may_print_def limit_notice_def cancel_notice_def tool_error_notice_def)

text \<open>
  Claim C1. With a turn limit \<open>L \<ge> 0\<close> the driver calls the agent client at most \<open>L\<close>
  times and has returned after \<open>L + 1\<close> iterations of its loop; when it returns through
  the limit branch it has made exactly \<open>L\<close> calls, the process has not exited with a
  failure, and the limit notice is the last thing it printed; an agent that asks for
  tools in every turn is stopped by the limit. With \<open>L = 0\<close> the first iteration prints
  the notice and the agent client is never called. With \<open>L < 0\<close> the limit branch is never
  taken and, unless a collaborator fails with the very text of the limit notice as its
  diagnostic, the notice is never printed; an agent that asks for tools in every turn
  keeps the loop running: after \<open>n\<close> iterations the driver has not returned and has made
  \<open>n\<close> calls.
\<close>

theorem turn_limit_bounds_session:
  "(0 \<le> getMaxSessionTurns e \<longrightarrow>
      sends (snd (runNonInteractive n e input pid j)) \<le> nat (getMaxSessionTurns e) \<and>
      fst (runNonInteractive (Suc (nat (getMaxSessionTurns e))) e input pid j) \<noteq> None \<and>
      (fst (runNonInteractive n e input pid j) = Some LimitReached \<longrightarrow>
         sends (snd (runNonInteractive n e input pid j)) = nat (getMaxSessionTurns e) \<and>
         exits (trace (snd (runNonInteractive n e input pid j))) = [] \<and>
         last (trace (snd (runNonInteractive n e input pid j))) = ConsoleError limit_notice) \<and>
      (requests_tools_forever e \<longrightarrow>
         fst (runNonInteractive (Suc (nat (getMaxSessionTurns e))) e input pid j) = Some LimitReached)) \<and>
   (getMaxSessionTurns e = 0 \<longrightarrow>
      runNonInteractive (Suc n) e input pid j =
        (Some LimitReached,
         (init_session input)\<lparr>turnCount := 1, trace := [ConsoleError limit_notice]\<rparr>) \<and>
      sent (trace (snd (runNonInteractive (Suc n) e input pid j))) = []) \<and>
   (getMaxSessionTurns e < 0 \<longrightarrow>
      fst (runNonInteractive n e input pid j) \<noteq> Some LimitReached \<and>
      ((\<forall>k ps pid. failure (sendMessageStream e k ps pid) \<noteq> Some limit_notice) \<and>
       (\<forall>k req. executeToolCall e k req \<noteq> Inl limit_notice) \<longrightarrow>
         limit_notice \<notin> set (console_errors (trace (snd (runNonInteractive n e input pid j))))) \<and>
      (requests_tools_forever e \<longrightarrow>
         fst (runNonInteractive n e input pid j) = None \<and>
         sends (snd (runNonInteractive n e input pid j)) = n))"
proof (intro conjI impI)
  assume L: "0 \<le> getMaxSessionTurns e"
  obtain out s' where r: "runNonInteractive n e input pid j = (out, s')"
    by (cases "runNonInteractive n e input pid j")
  then have r': "run_loop n e j pid (init_session input) = (out, s')"
    by (simp add: runNonInteractive_def)
  have b: "sends s' \<le> nat (getMaxSessionTurns e) \<and>
         (out = Some LimitReached \<longrightarrow>
            sends s' = nat (getMaxSessionTurns e) \<and> exits (trace s') = [] \<and>
            last (trace s') = ConsoleError limit_notice)"
    using run_loop_bounded[OF L _ _ _ r'] by (simp add: init_fields proj_single)
  from b r show "sends (snd (runNonInteractive n e input pid j)) \<le> nat (getMaxSessionTurns e)" by simp
  {
    assume "fst (runNonInteractive n e input pid j) = Some LimitReached"
    with b r show "sends (snd (runNonInteractive n e input pid j)) = nat (getMaxSessionTurns e)"
      and "exits (trace (snd (runNonInteractive n e input pid j))) = []"
      and "last (trace (snd (runNonInteractive n e input pid j))) = ConsoleError limit_notice"
      by simp_all
  }
  obtain out2 s2 where r2: "run_loop (Suc (nat (getMaxSessionTurns e))) e j pid (init_session input) = (out2, s2)"
    by (cases "run_loop (Suc (nat (getMaxSessionTurns e))) e j pid (init_session input)")
  from run_loop_bounded[OF L _ _ _ r2] r2
  show "fst (runNonInteractive (Suc (nat (getMaxSessionTurns e))) e input pid j) \<noteq> None"
    by (simp add: init_fields proj_single runNonInteractive_def)
  {
    assume "requests_tools_forever e"
    from run_loop_busy_limited[OF L this, of "init_session input" "Suc (nat (getMaxSessionTurns e))" j pid]
    show "fst (runNonInteractive (Suc (nat (getMaxSessionTurns e))) e input pid j) = Some LimitReached"
      by (simp add: init_fields runNonInteractive_def)
  }
next
  assume Z: "getMaxSessionTurns e = 0"
  then have lr: "limit_reached e (init_session input)"
    by (simp add: limit_reached_def)
  show "runNonInteractive (Suc n) e input pid j =
        (Some LimitReached,
         (init_session input)\<lparr>turnCount := 1, trace := [ConsoleError limit_notice]\<rparr>)"
    by (simp add: runNonInteractive_def turn_limit[OF lr] emit_def init_fields)
  then show "sent (trace (snd (runNonInteractive (Suc n) e input pid j))) = []"
    by (simp add: proj_single)
next
  assume L: "getMaxSessionTurns e < 0"
  from run_loop_unlimited[OF L] show "fst (runNonInteractive n e input pid j) \<noteq> Some LimitReached"
    by (simp add: runNonInteractive_def)
  {
    assume "(\<forall>k ps pid. failure (sendMessageStream e k ps pid) \<noteq> Some limit_notice) \<and>
       (\<forall>k req. executeToolCall e k req \<noteq> Inl limit_notice)"
    then have "\<not> may_print e limit_notice" by (simp add: limit_notice_not_printed)
    with run_loop_console[OF L, of n j pid "init_session input"]
    show "limit_notice \<notin> set (console_errors (trace (snd (runNonInteractive n e input pid j))))"
      by (auto simp add: runNonInteractive_def init_fields proj_single)
  }
  {
    assume b: "requests_tools_forever e"
    from run_loop_busy_unlimited[OF L b, of n j pid "init_session input"]
    show "fst (runNonInteractive n e input pid j) = None"
      and "sends (snd (runNonInteractive n e input pid j)) = n"
      by (simp_all add: runNonInteractive_def init_fields)
  }
qed

lemma busy_env_forever: "requests_tools_forever (busy_env L)"
  by (simp add: requests_tools_forever_def never_throws_def unaborted_def busy_env_def requests_def)

theorem turn_limit_bounds_session_witness:
  "fst (runNonInteractive 3 (busy_env 2) ''hello'' ''p1'' False) = Some LimitReached \<and>
   sends (snd (runNonInteractive 3 (busy_env 2) ''hello'' ''p1'' False)) = 2 \<and>
   sent (trace (snd (runNonInteractive (Suc 0) (busy_env 0) ''hello'' ''p1'' False))) = [] \<and>
   fst (runNonInteractive 5 (busy_env (- 1)) ''hello'' ''p1'' False) = None \<and>
   sends (snd (runNonInteractive 5 (busy_env (- 1)) ''hello'' ''p1'' False)) = 5 \<and>
   limit_notice \<notin> set (console_errors (trace (snd
     (runNonInteractive 5 (busy_env (- 1)) ''hello'' ''p1'' False))))"
proof -
  have g: "getMaxSessionTurns (busy_env L) = L" for L by (simp add: busy_env_def)
  have h: "failure (sendMessageStream (busy_env L) k ps pid) \<noteq> Some limit_notice"
    "executeToolCall (busy_env L) k req \<noteq> Inl limit_notice" for L k ps pid req
    by (simp_all add: busy_env_def)
  show ?thesis
    using turn_limit_bounds_session[of "busy_env 2" 3 "''hello''" "''p1''" False]
      turn_limit_bounds_session[of "busy_env 0" 0 "''hello''" "''p1''" False]
      turn_limit_bounds_session[of "busy_env (- 1)" 5 "''hello''" "''p1''" False]
      busy_env_forever[of 2] busy_env_forever[of "- 1"]
    by (auto simp add: g h)
qed

end
